theory Spec2Isabelle
  imports Complex_Main "HOL-Library.Word"
begin

section \<open>Single-precision values\<close>

text \<open>
  The C type \<open>float\<close>. A finite value is the real number it denotes; the two infinities
  and NaN are values of their own. The source only compares floats, takes absolute
  values, copies them and multiplies by \<open>1.0f\<close> or \<open>-1.0f\<close>; all of these are exact in
  IEEE 754, so no rounding has to be modelled. Every finite \<open>float\<close> is a \<open>Fin r\<close>; a
  statement about all \<open>cfloat\<close> values covers all floats.
\<close>

datatype cfloat = Fin real | PInf | NInf | NaN

text \<open>The comparison \<open>a < b\<close>: false as soon as one side is NaN.\<close>

fun fless :: "cfloat \<Rightarrow> cfloat \<Rightarrow> bool" where
  "fless (Fin a) (Fin b) = (a < b)"
| "fless (Fin a) PInf = True"
| "fless NInf (Fin b) = True"
| "fless NInf PInf = True"
| "fless _ _ = False"

text \<open>The comparison \<open>a <= b\<close>, used to state ranges.\<close>

fun fle :: "cfloat \<Rightarrow> cfloat \<Rightarrow> bool" where
  "fle (Fin a) (Fin b) = (a \<le> b)"
| "fle (Fin a) PInf = True"
| "fle NInf (Fin b) = True"
| "fle NInf PInf = True"
| "fle NInf NInf = True"
| "fle PInf PInf = True"
| "fle _ _ = False"

text \<open>\<open>std::abs\<close> on a float.\<close>

fun fabs :: "cfloat \<Rightarrow> cfloat" where
  "fabs (Fin a) = Fin \<bar>a\<bar>"
| "fabs PInf = PInf"
| "fabs NInf = PInf"
| "fabs NaN = NaN"

text \<open>
  The product \<open>a * b\<close>. On two finite values it is the real product, which is what the
  hardware returns whenever one factor is \<open>1.0f\<close> or \<open>-1.0f\<close>, the only products the
  source forms.
\<close>

fun fmul :: "cfloat \<Rightarrow> cfloat \<Rightarrow> cfloat" where
  "fmul (Fin a) (Fin b) = Fin (a * b)"
| "fmul NaN _ = NaN"
| "fmul _ NaN = NaN"
| "fmul (Fin a) PInf = (if a = 0 then NaN else if 0 < a then PInf else NInf)"
| "fmul (Fin a) NInf = (if a = 0 then NaN else if 0 < a then NInf else PInf)"
| "fmul PInf (Fin b) = (if b = 0 then NaN else if 0 < b then PInf else NInf)"
| "fmul NInf (Fin b) = (if b = 0 then NaN else if 0 < b then NInf else PInf)"
| "fmul PInf PInf = PInf"
| "fmul NInf NInf = PInf"
| "fmul PInf NInf = NInf"
| "fmul NInf PInf = NInf"

text \<open>\<open>std::min(a, b)\<close> is \<open>(b < a) ? b : a\<close> and \<open>std::max(a, b)\<close> is \<open>(a < b) ? b : a\<close>.\<close>

definition std_min :: "cfloat \<Rightarrow> cfloat \<Rightarrow> cfloat" where
  "std_min a b = (if fless b a then b else a)"

definition std_max :: "cfloat \<Rightarrow> cfloat \<Rightarrow> cfloat" where
  "std_max a b = (if fless a b then b else a)"

text \<open>
  Clamping into the range from 0 to 1, stated on the values and not through
  \<open>std::min\<close> and \<open>std::max\<close>: a value of the range is kept, a value below 0 becomes
  0, a value above 1 becomes 1, minus infinity becomes 0 and plus infinity becomes 1.
  NaN is neither below 0 nor above 1; the code's two comparisons send it to 1. The
  setter of truth values is compared with this function.
\<close>

fun clamp01 :: "cfloat \<Rightarrow> cfloat" where
  "clamp01 (Fin r) = (if r < 0 then Fin 0 else if 1 < r then Fin 1 else Fin r)"
| "clamp01 PInf = Fin 1"
| "clamp01 NInf = Fin 0"
| "clamp01 NaN = Fin 1"

text \<open>
  The literals \<open>0.1f\<close> and \<open>0.8f\<close> are the floats nearest to one tenth and to eight
  tenths: \<open>13421773 / 2^27\<close> and \<open>13421773 / 2^24\<close>. \<open>0.0f\<close>, \<open>0.5f\<close>, \<open>1.0f\<close> and
  \<open>1.5f\<close> are exact.
\<close>

definition lit_0_1f :: cfloat where
  "lit_0_1f = Fin (13421773 / 134217728)"

definition lit_0_8f :: cfloat where
  "lit_0_8f = Fin (13421773 / 16777216)"

section \<open>Atoms and the AtomSpace\<close>

datatype rwkv_atom_type_t =
    RWKV_ATOM_NODE
  | RWKV_ATOM_LINK
  | RWKV_ATOM_CONCEPT_NODE
  | RWKV_ATOM_PREDICATE_NODE
  | RWKV_ATOM_NUMBER_NODE
  | RWKV_ATOM_VARIABLE_NODE
  | RWKV_ATOM_LIST_LINK
  | RWKV_ATOM_EVALUATION_LINK
  | RWKV_ATOM_IMPLICATION_LINK
  | RWKV_ATOM_AND_LINK
  | RWKV_ATOM_OR_LINK
  | RWKV_ATOM_NOT_LINK
  | RWKV_ATOM_SIMILARITY_LINK
  | RWKV_ATOM_INHERITANCE_LINK

text \<open>The integer value of an enumerator, as \<open>std::to_string(type)\<close> prints it.\<close>

fun atom_type_code :: "rwkv_atom_type_t \<Rightarrow> nat" where
  "atom_type_code RWKV_ATOM_NODE = 0"
| "atom_type_code RWKV_ATOM_LINK = 1"
| "atom_type_code RWKV_ATOM_CONCEPT_NODE = 2"
| "atom_type_code RWKV_ATOM_PREDICATE_NODE = 3"
| "atom_type_code RWKV_ATOM_NUMBER_NODE = 4"
| "atom_type_code RWKV_ATOM_VARIABLE_NODE = 5"
| "atom_type_code RWKV_ATOM_LIST_LINK = 6"
| "atom_type_code RWKV_ATOM_EVALUATION_LINK = 7"
| "atom_type_code RWKV_ATOM_IMPLICATION_LINK = 8"
| "atom_type_code RWKV_ATOM_AND_LINK = 9"
| "atom_type_code RWKV_ATOM_OR_LINK = 10"
| "atom_type_code RWKV_ATOM_NOT_LINK = 11"
| "atom_type_code RWKV_ATOM_SIMILARITY_LINK = 12"
| "atom_type_code RWKV_ATOM_INHERITANCE_LINK = 13"

record rwkv_truth_value_t =
  strength :: cfloat
  confidence :: cfloat

record rwkv_attention_value_t =
  sti :: cfloat
  lti :: cfloat
  vlti :: cfloat

type_synonym rwkv_atom_handle_t = "64 word"

definition RWKV_INVALID_ATOM_HANDLE :: rwkv_atom_handle_t where
  "RWKV_INVALID_ATOM_HANDLE = 0"

record rwkv_atom =
  handle :: rwkv_atom_handle_t
  type :: rwkv_atom_type_t
  name :: string
  outgoing :: "rwkv_atom_handle_t list"
  tv :: rwkv_truth_value_t
  av :: rwkv_attention_value_t

text \<open>The constructor \<open>rwkv_atom(h, t)\<close>: empty name and outgoing, default annotations.\<close>

definition new_atom :: "rwkv_atom_handle_t \<Rightarrow> rwkv_atom_type_t \<Rightarrow> rwkv_atom" where
  "new_atom h t =
     \<lparr>handle = h, type = t, name = [], outgoing = [],
      tv = \<lparr>strength = Fin (1 / 2), confidence = lit_0_1f\<rparr>,
      av = \<lparr>sti = Fin 0, lti = Fin 0, vlti = Fin 0\<rparr>\<rparr>"

text \<open>
  The store. \<open>atoms\<close> and \<open>name_index\<close> are hash maps and \<open>link_signatures\<close> a hash set;
  \<open>next_handle\<close> is a \<open>uint64_t\<close> whose increment wraps. The mutex is not modelled: every
  call runs alone.
\<close>

record rwkv_atomspace =
  atoms :: "rwkv_atom_handle_t \<rightharpoonup> rwkv_atom"
  name_index :: "string \<rightharpoonup> rwkv_atom_handle_t list"
  link_signatures :: "string set"
  next_handle :: rwkv_atom_handle_t

text \<open>
  \<open>std::unordered_map\<close> promises no iteration order. A function that walks \<open>atoms\<close> from
  \<open>begin()\<close> to \<open>end()\<close> therefore takes the sequence of entries it meets as an argument;
  \<open>iteration_of s iter\<close> says that \<open>iter\<close> lists every entry of the map once.
\<close>

type_synonym atom_iteration = "(rwkv_atom_handle_t \<times> rwkv_atom) list"

definition iteration_of :: "rwkv_atomspace \<Rightarrow> atom_iteration \<Rightarrow> bool" where
  "iteration_of s iter \<longleftrightarrow> distinct (map fst iter) \<and> map_of iter = atoms s"

subsection \<open>Utility functions\<close>

definition digit_char :: "nat \<Rightarrow> char" where
  "digit_char d = ''0123456789'' ! d"

text \<open>\<open>std::to_string\<close> on an unsigned value: its decimal digits.\<close>

fun to_string :: "nat \<Rightarrow> string" where
  "to_string n =
     (if n < 10 then [digit_char n] else to_string (n div 10) @ [digit_char (n mod 10)])"

declare to_string.simps [simp del]

definition create_link_signature ::
  "rwkv_atom_type_t \<Rightarrow> rwkv_atom_handle_t list \<Rightarrow> string" where
  "create_link_signature t outgoing_arr =
     fold (\<lambda>(i, h) sig. (if 0 < i then sig @ '','' else sig) @ to_string (unat h))
          (enumerate 0 outgoing_arr)
          (to_string (atom_type_code t) @ '':'')"

definition is_node_type :: "rwkv_atom_type_t \<Rightarrow> bool" where
  "is_node_type t \<longleftrightarrow>
     t = RWKV_ATOM_NODE \<or> t = RWKV_ATOM_CONCEPT_NODE \<or> t = RWKV_ATOM_PREDICATE_NODE \<or>
     t = RWKV_ATOM_NUMBER_NODE \<or> t = RWKV_ATOM_VARIABLE_NODE"

definition is_link_type :: "rwkv_atom_type_t \<Rightarrow> bool" where
  "is_link_type t \<longleftrightarrow> \<not> is_node_type t"

subsection \<open>Creation\<close>

text \<open>
  Pointer arguments are options, \<open>None\<close> for the null pointer. \<open>new_atomspace\<close> is the
  constructor \<open>rwkv_atomspace()\<close>; \<open>alloc_ok\<close> says whether \<open>new\<close> succeeded.
\<close>

definition new_atomspace :: rwkv_atomspace where
  "new_atomspace =
     \<lparr>atoms = Map.empty, name_index = Map.empty, link_signatures = {}, next_handle = 1\<rparr>"

definition rwkv_atomspace_create :: "bool \<Rightarrow> rwkv_atomspace option" where
  "rwkv_atomspace_create alloc_ok = (if alloc_ok then Some new_atomspace else None)"

text \<open>
  The block of \<open>rwkv_atomspace_add_node\<close> that looks for a stored node: the handles
  indexed under the name are tried in order, and the first one whose atom is stored and
  has the requested type is the result.
\<close>

definition existing_node ::
  "rwkv_atomspace \<Rightarrow> rwkv_atom_type_t \<Rightarrow> string \<Rightarrow> rwkv_atom_handle_t option" where
  "existing_node s t node_name =
     (case name_index s node_name of
        None \<Rightarrow> None
      | Some hs \<Rightarrow>
          List.find (\<lambda>h. case atoms s h of Some a \<Rightarrow> type a = t | None \<Rightarrow> False) hs)"

definition rwkv_atomspace_add_node ::
  "rwkv_atomspace option \<Rightarrow> rwkv_atom_type_t \<Rightarrow> string option \<Rightarrow>
   rwkv_atom_handle_t \<times> rwkv_atomspace option" where
  "rwkv_atomspace_add_node atomspace t name_ptr =
     (case (atomspace, name_ptr) of
        (Some s, Some node_name) \<Rightarrow>
          if \<not> is_node_type t then (RWKV_INVALID_ATOM_HANDLE, atomspace)
          else
            (case existing_node s t node_name of
               Some h \<Rightarrow> (h, atomspace)
             | None \<Rightarrow>
                 let h = next_handle s;
                     atom = (new_atom h t)\<lparr>name := node_name\<rparr>
                 in (h, Some (s\<lparr>next_handle := next_handle s + 1,
                                atoms := (atoms s)(h \<mapsto> atom),
                                name_index := (name_index s)(node_name \<mapsto>
                                  (case name_index s node_name of
                                     None \<Rightarrow> [] | Some hs \<Rightarrow> hs) @ [h])\<rparr>)))
      | _ \<Rightarrow> (RWKV_INVALID_ATOM_HANDLE, atomspace))"

text \<open>
  The block of \<open>rwkv_atomspace_add_link\<close> that looks for a stored link. Only when the
  signature has been recorded are the entries of \<open>atoms\<close> walked; the first one with the
  requested type, the same number of outgoing handles and the same handle at every
  position is the result. Equal length and equal elements is equality of the sequences.
\<close>

definition existing_link ::
  "atom_iteration \<Rightarrow> rwkv_atomspace \<Rightarrow> rwkv_atom_type_t \<Rightarrow> rwkv_atom_handle_t list \<Rightarrow>
   rwkv_atom_handle_t option" where
  "existing_link iter s t outgoing_arr =
     (if create_link_signature t outgoing_arr \<in> link_signatures s
      then map_option fst
             (List.find (\<lambda>(h, a). type a = t \<and> length (outgoing a) = length outgoing_arr \<and>
                                  outgoing a = outgoing_arr) iter)
      else None)"

text \<open>\<open>outgoing_ptr\<close> is the array with its \<open>outgoing_count\<close> elements.\<close>

definition rwkv_atomspace_add_link ::
  "atom_iteration \<Rightarrow> rwkv_atomspace option \<Rightarrow> rwkv_atom_type_t \<Rightarrow>
   rwkv_atom_handle_t list option \<Rightarrow> rwkv_atom_handle_t \<times> rwkv_atomspace option" where
  "rwkv_atomspace_add_link iter atomspace t outgoing_ptr =
     (case (atomspace, outgoing_ptr) of
        (Some s, Some outgoing_arr) \<Rightarrow>
          if length outgoing_arr = 0 \<or> \<not> is_link_type t
          then (RWKV_INVALID_ATOM_HANDLE, atomspace)
          else if \<not> list_all (\<lambda>h. atoms s h \<noteq> None) outgoing_arr
          then (RWKV_INVALID_ATOM_HANDLE, atomspace)
          else
            (case existing_link iter s t outgoing_arr of
               Some h \<Rightarrow> (h, atomspace)
             | None \<Rightarrow>
                 let h = next_handle s;
                     atom = (new_atom h t)\<lparr>outgoing := outgoing_arr\<rparr>
                 in (h, Some (s\<lparr>next_handle := next_handle s + 1,
                                atoms := (atoms s)(h \<mapsto> atom),
                                link_signatures :=
                                  insert (create_link_signature t outgoing_arr)
                                         (link_signatures s)\<rparr>)))
      | _ \<Rightarrow> (RWKV_INVALID_ATOM_HANDLE, atomspace))"

subsection \<open>Retrieval and annotations\<close>

definition rwkv_atomspace_get_atom ::
  "rwkv_atomspace option \<Rightarrow> rwkv_atom_handle_t \<Rightarrow> rwkv_atom option" where
  "rwkv_atomspace_get_atom atomspace h =
     (case atomspace of
        None \<Rightarrow> None
      | Some s \<Rightarrow> if h = RWKV_INVALID_ATOM_HANDLE then None else atoms s h)"

text \<open>
  The setters write through an atom pointer; the model returns the record behind the
  pointer after the call.
\<close>

definition rwkv_atom_set_truth_value ::
  "rwkv_atom option \<Rightarrow> rwkv_truth_value_t option \<Rightarrow> bool \<times> rwkv_atom option" where
  "rwkv_atom_set_truth_value atom tv_ptr =
     (case (atom, tv_ptr) of
        (Some a, Some v) \<Rightarrow>
          let a1 = a\<lparr>tv := v\<rparr>;
              a2 = a1\<lparr>tv := (tv a1)\<lparr>strength :=
                     std_max (Fin 0) (std_min (Fin 1) (strength (tv a1)))\<rparr>\<rparr>;
              a3 = a2\<lparr>tv := (tv a2)\<lparr>confidence :=
                     std_max (Fin 0) (std_min (Fin 1) (confidence (tv a2)))\<rparr>\<rparr>
          in (True, Some a3)
      | _ \<Rightarrow> (False, atom))"

definition rwkv_atom_get_truth_value ::
  "rwkv_atom option \<Rightarrow> bool \<Rightarrow> bool \<times> rwkv_truth_value_t option" where
  "rwkv_atom_get_truth_value atom tv_given =
     (case atom of
        Some a \<Rightarrow> if tv_given then (True, Some (tv a)) else (False, None)
      | None \<Rightarrow> (False, None))"

definition rwkv_atom_set_attention_value ::
  "rwkv_atom option \<Rightarrow> rwkv_attention_value_t option \<Rightarrow> bool \<times> rwkv_atom option" where
  "rwkv_atom_set_attention_value atom av_ptr =
     (case (atom, av_ptr) of
        (Some a, Some v) \<Rightarrow> (True, Some (a\<lparr>av := v\<rparr>))
      | _ \<Rightarrow> (False, atom))"

definition rwkv_atom_get_attention_value ::
  "rwkv_atom option \<Rightarrow> bool \<Rightarrow> bool \<times> rwkv_attention_value_t option" where
  "rwkv_atom_get_attention_value atom av_given =
     (case atom of
        Some a \<Rightarrow> if av_given then (True, Some (av a)) else (False, None)
      | None \<Rightarrow> (False, None))"

subsection \<open>Pattern matching and forward inference\<close>

text \<open>
  Both functions fill a caller's buffer from index 0 and report how many entries they
  wrote. The model returns the written entries in order; the count is their number.
  \<open>results_given\<close>, \<open>conclusions_given\<close> and \<open>num_given\<close> say that the respective pointer
  is not null.
\<close>

fun pattern_match_loop ::
  "rwkv_atom_type_t \<Rightarrow> rwkv_atom_handle_t \<Rightarrow> nat \<Rightarrow> atom_iteration \<Rightarrow>
   rwkv_atom_handle_t list \<Rightarrow> rwkv_atom_handle_t list" where
  "pattern_match_loop t pattern max_results [] results = results"
| "pattern_match_loop t pattern max_results ((h, a) # rest) results =
     (if max_results \<le> length results then results
      else if type a = t \<and> h \<noteq> pattern
      then pattern_match_loop t pattern max_results rest (results @ [h])
      else pattern_match_loop t pattern max_results rest results)"

definition rwkv_atomspace_pattern_match ::
  "atom_iteration \<Rightarrow> rwkv_atomspace option \<Rightarrow> rwkv_atom_handle_t \<Rightarrow> bool \<Rightarrow> nat \<Rightarrow>
   rwkv_atom_handle_t list" where
  "rwkv_atomspace_pattern_match iter atomspace pattern results_given max_results =
     (case atomspace of
        None \<Rightarrow> []
      | Some s \<Rightarrow>
          if pattern = RWKV_INVALID_ATOM_HANDLE \<or> \<not> results_given then []
          else (case atoms s pattern of
                  None \<Rightarrow> []
                | Some pattern_atom \<Rightarrow>
                    pattern_match_loop (type pattern_atom) pattern max_results iter []))"

fun forward_inference_loop ::
  "rwkv_atom_handle_t \<Rightarrow> nat \<Rightarrow> atom_iteration \<Rightarrow>
   rwkv_atom_handle_t list \<Rightarrow> rwkv_atom_handle_t list" where
  "forward_inference_loop premise max_conclusions [] conclusions = conclusions"
| "forward_inference_loop premise max_conclusions ((h, a) # rest) conclusions =
     (if max_conclusions \<le> length conclusions then conclusions
      else if type a = RWKV_ATOM_IMPLICATION_LINK \<and> length (outgoing a) = 2 \<and>
              outgoing a ! 0 = premise
      then forward_inference_loop premise max_conclusions rest
             (conclusions @ [outgoing a ! 1])
      else forward_inference_loop premise max_conclusions rest conclusions)"

definition rwkv_atomspace_forward_inference ::
  "atom_iteration \<Rightarrow> rwkv_atomspace option \<Rightarrow> rwkv_atom_handle_t \<Rightarrow> bool \<Rightarrow> nat \<Rightarrow>
   bool \<Rightarrow> bool \<times> rwkv_atom_handle_t list" where
  "rwkv_atomspace_forward_inference iter atomspace premise conclusions_given
       max_conclusions num_given =
     (case atomspace of
        None \<Rightarrow> (False, [])
      | Some s \<Rightarrow>
          if premise = RWKV_INVALID_ATOM_HANDLE \<or> \<not> conclusions_given \<or> \<not> num_given
          then (False, [])
          else (True, forward_inference_loop premise max_conclusions iter []))"

subsection \<open>Statistics\<close>

definition rwkv_atomspace_get_size :: "rwkv_atomspace option \<Rightarrow> nat" where
  "rwkv_atomspace_get_size atomspace =
     (case atomspace of None \<Rightarrow> 0 | Some s \<Rightarrow> card (dom (atoms s)))"

fun count_loop :: "(rwkv_atom_type_t \<Rightarrow> bool) \<Rightarrow> atom_iteration \<Rightarrow> nat \<Rightarrow> nat" where
  "count_loop p [] count = count"
| "count_loop p ((h, a) # rest) count =
     count_loop p rest (if p (type a) then count + 1 else count)"

definition rwkv_atomspace_get_node_count ::
  "atom_iteration \<Rightarrow> rwkv_atomspace option \<Rightarrow> nat" where
  "rwkv_atomspace_get_node_count iter atomspace =
     (case atomspace of None \<Rightarrow> 0 | Some s \<Rightarrow> count_loop is_node_type iter 0)"

definition rwkv_atomspace_get_link_count ::
  "atom_iteration \<Rightarrow> rwkv_atomspace option \<Rightarrow> nat" where
  "rwkv_atomspace_get_link_count iter atomspace =
     (case atomspace of None \<Rightarrow> 0 | Some s \<Rightarrow> count_loop is_link_type iter 0)"

subsection \<open>The state bridge\<close>

text \<open>
  \<open>std::stoul\<close> in base 10, with a 64-bit \<open>unsigned long\<close>: leading white space is
  skipped, one sign is accepted, then the longest run of decimal digits is read. It
  throws when there is no digit or when the digits denote more than \<open>2^64 - 1\<close>; the
  model returns \<open>None\<close> for both. A minus sign negates the value modulo \<open>2^64\<close>.
\<close>

definition isspace_c :: "char \<Rightarrow> bool" where
  "isspace_c c \<longleftrightarrow> of_char c \<in> {32 :: nat, 9, 10, 11, 12, 13}"

definition isdigit_c :: "char \<Rightarrow> bool" where
  "isdigit_c c \<longleftrightarrow> (48 :: nat) \<le> of_char c \<and> of_char c \<le> (57 :: nat)"

definition digit_value :: "char \<Rightarrow> nat" where
  "digit_value c = of_char c - 48"

definition stoul :: "string \<Rightarrow> nat option" where
  "stoul str =
     (let s1 = dropWhile isspace_c str;
          negative = (case s1 of c # cs \<Rightarrow> c = CHR ''-'' | [] \<Rightarrow> False);
          s2 = (case s1 of
                  c # cs \<Rightarrow> if c = CHR ''-'' \<or> c = CHR ''+'' then cs else s1
                | [] \<Rightarrow> s1);
          ds = takeWhile isdigit_c s2;
          v = foldl (\<lambda>acc c. 10 * acc + digit_value c) 0 ds
      in if ds = [] then None
         else if 2 ^ 64 \<le> v then None
         else Some (if negative then (2 ^ 64 - v) mod 2 ^ 64 else v))"

text \<open>
  A pointer returned by \<open>rwkv_atomspace_get_atom\<close> points into the store, so a setter
  called on it changes the stored record. \<open>atom_pointer_write\<close> is that effect: the
  record behind the pointer for handle \<open>h\<close> is put back at \<open>h\<close>.
\<close>

definition atom_pointer_write ::
  "rwkv_atomspace option \<Rightarrow> rwkv_atom_handle_t \<Rightarrow> rwkv_atom option \<Rightarrow>
   rwkv_atomspace option" where
  "atom_pointer_write atomspace h atom =
     (case (atomspace, atom) of
        (Some s, Some a) \<Rightarrow> Some (s\<lparr>atoms := (atoms s)(h \<mapsto> a)\<rparr>)
      | _ \<Rightarrow> atomspace)"

text \<open>
  One round of the loop of \<open>rwkv_context_to_atoms\<close>, for index \<open>i\<close>. The unused
  \<open>rwkv_ctx\<close> argument is left out of both bridge functions.
\<close>

definition context_to_atoms_step ::
  "cfloat list \<Rightarrow> nat \<Rightarrow> rwkv_atomspace option \<Rightarrow> rwkv_atomspace option" where
  "context_to_atoms_step state i atomspace =
     (if fless lit_0_1f (fabs (state ! i)) then
        let concept_name = ''state_'' @ to_string i;
            (h, atomspace1) =
               rwkv_atomspace_add_node atomspace RWKV_ATOM_CONCEPT_NODE (Some concept_name)
        in if h \<noteq> RWKV_INVALID_ATOM_HANDLE then
             (case rwkv_atomspace_get_atom atomspace1 h of
                Some a \<Rightarrow>
                  let (ok1, a1) = rwkv_atom_set_truth_value (Some a)
                         (Some \<lparr>strength = fabs (state ! i), confidence = lit_0_8f\<rparr>);
                      (ok2, a2) = rwkv_atom_set_attention_value a1
                         (Some \<lparr>sti = (if fless (Fin 0) (state ! i) then state ! i else Fin 0),
                                lti = Fin 0, vlti = Fin 0\<rparr>)
                  in atom_pointer_write atomspace1 h a2
              | None \<Rightarrow> atomspace1)
           else atomspace1
      else atomspace)"

text \<open>\<open>state_ptr\<close> is the array with its \<open>state_len\<close> elements.\<close>

definition rwkv_context_to_atoms ::
  "rwkv_atomspace option \<Rightarrow> cfloat list option \<Rightarrow> bool \<times> rwkv_atomspace option" where
  "rwkv_context_to_atoms atomspace state_ptr =
     (case (atomspace, state_ptr) of
        (Some s, Some state) \<Rightarrow>
          (True, fold (context_to_atoms_step state) [0 ..< min (length state) 100] atomspace)
      | _ \<Rightarrow> (False, atomspace))"

text \<open>One round of the loop of \<open>rwkv_atoms_to_context\<close>, for the entry \<open>(h, a)\<close>.\<close>

definition atoms_to_context_step ::
  "rwkv_atom_handle_t \<times> rwkv_atom \<Rightarrow> cfloat list \<Rightarrow> cfloat list" where
  "atoms_to_context_step entry state =
     (case entry of (h, a) \<Rightarrow>
        if type a = RWKV_ATOM_CONCEPT_NODE \<and> take 6 (name a) = ''state_'' then
          (case stoul (drop 6 (name a)) of
             Some index \<Rightarrow>
               if index < length state
               then state[index := fmul (strength (tv a))
                                    (if fless (Fin 0) (sti (av a)) then Fin 1 else Fin (- 1))]
               else state
           | None \<Rightarrow> state)
        else state)"

text \<open>
  The output buffer of \<open>state_len\<close> floats is returned as a list; \<open>state_given\<close> says that
  the pointer to it is not null.
\<close>

definition rwkv_atoms_to_context ::
  "atom_iteration \<Rightarrow> rwkv_atomspace option \<Rightarrow> bool \<Rightarrow> nat \<Rightarrow> bool \<times> cfloat list option" where
  "rwkv_atoms_to_context iter atomspace state_given state_len =
     (case atomspace of
        None \<Rightarrow> (False, None)
      | Some s \<Rightarrow>
          if \<not> state_given then (False, None)
          else (True, Some (fold atoms_to_context_step iter (replicate state_len (Fin 0)))))"

subsection \<open>Reachable stores\<close>

text \<open>
  An atom record takes several dozen bytes and is never freed before the store is, so a
  store in a 64-bit address space holds far fewer than \<open>2^64 - 2\<close> atoms when a call is
  made. \<open>has_room\<close> states this bound. With it the increment of \<open>next_handle\<close>, which
  the model performs modulo \<open>2^64\<close> as the code does, never wraps to zero.
\<close>

definition has_room :: "rwkv_atomspace \<Rightarrow> bool" where
  "has_room s \<longleftrightarrow> rwkv_atomspace_get_size (Some s) < 2 ^ 64 - 2"

text \<open>
  The stores a client can build: a fresh store, changed by the creation functions and
  by the two setters called on a pointer that \<open>rwkv_atomspace_get_atom\<close> returned.
\<close>

inductive reachable :: "rwkv_atomspace \<Rightarrow> bool" where
  create: "rwkv_atomspace_create True = Some s \<Longrightarrow> reachable s"
| add_node:
    "reachable s \<Longrightarrow> has_room s \<Longrightarrow>
     rwkv_atomspace_add_node (Some s) t name_ptr = (h, Some s') \<Longrightarrow> reachable s'"
| add_link:
    "reachable s \<Longrightarrow> has_room s \<Longrightarrow> iteration_of s iter \<Longrightarrow>
     rwkv_atomspace_add_link iter (Some s) t outgoing_ptr = (h, Some s') \<Longrightarrow> reachable s'"
| set_truth_value:
    "reachable s \<Longrightarrow> rwkv_atomspace_get_atom (Some s) h = Some a \<Longrightarrow>
     rwkv_atom_set_truth_value (Some a) tv_ptr = (ok, Some a') \<Longrightarrow>
     reachable (s\<lparr>atoms := (atoms s)(h \<mapsto> a')\<rparr>)"
| set_attention_value:
    "reachable s \<Longrightarrow> rwkv_atomspace_get_atom (Some s) h = Some a \<Longrightarrow>
     rwkv_atom_set_attention_value (Some a) av_ptr = (ok, Some a') \<Longrightarrow>
     reachable (s\<lparr>atoms := (atoms s)(h \<mapsto> a')\<rparr>)"

section \<open>Invariants of reachable stores\<close>

text \<open>
  Handles: finitely many atoms are stored, the counter is one more than their number,
  and every atom sits at its own handle, which is not zero and below the counter.
\<close>

definition wf_handles :: "rwkv_atomspace \<Rightarrow> bool" where
  "wf_handles s \<longleftrightarrow>
     finite (dom (atoms s)) \<and> card (dom (atoms s)) + 1 = unat (next_handle s) \<and>
     (\<forall>h a. atoms s h = Some a \<longrightarrow> handle a = h \<and> h \<noteq> 0 \<and> h < next_handle s)"

text \<open>
  Names: a handle indexed under a name is a stored node of that name, and every stored
  node is indexed under its name.
\<close>

definition wf_names :: "rwkv_atomspace \<Rightarrow> bool" where
  "wf_names s \<longleftrightarrow>
     (\<forall>n hs h. name_index s n = Some hs \<longrightarrow> h \<in> set hs \<longrightarrow>
        (\<exists>a. atoms s h = Some a \<and> name a = n \<and> is_node_type (type a))) \<and>
     (\<forall>h a. atoms s h = Some a \<longrightarrow> is_node_type (type a) \<longrightarrow>
        (\<exists>hs. name_index s (name a) = Some hs \<and> h \<in> set hs))"

text \<open>
  Links: the signature of every stored link is recorded, and no two stored atoms are
  links of the same type with the same outgoing sequence.
\<close>

definition wf_links :: "rwkv_atomspace \<Rightarrow> bool" where
  "wf_links s \<longleftrightarrow>
     (\<forall>h a. atoms s h = Some a \<longrightarrow> is_link_type (type a) \<longrightarrow>
        create_link_signature (type a) (outgoing a) \<in> link_signatures s) \<and>
     (\<forall>h a h' a'. atoms s h = Some a \<longrightarrow> atoms s h' = Some a' \<longrightarrow> is_link_type (type a) \<longrightarrow>
        type a' = type a \<longrightarrow> outgoing a' = outgoing a \<longrightarrow> h' = h)"

section \<open>Example stores\<close>

text \<open>
  The store a client gets from creating the Concept nodes A, B and C, the Predicate node
  P and the links Implication(A, B) and Implication(B, C), in this order, with the
  stores on the way to it and one possible iteration order of its atoms.
\<close>

definition demo_A :: rwkv_atom where
  "demo_A = (new_atom 1 RWKV_ATOM_CONCEPT_NODE)\<lparr>name := ''A''\<rparr>"

definition demo_B :: rwkv_atom where
  "demo_B = (new_atom 2 RWKV_ATOM_CONCEPT_NODE)\<lparr>name := ''B''\<rparr>"

definition demo_C :: rwkv_atom where
  "demo_C = (new_atom 3 RWKV_ATOM_CONCEPT_NODE)\<lparr>name := ''C''\<rparr>"

definition demo_P :: rwkv_atom where
  "demo_P = (new_atom 4 RWKV_ATOM_PREDICATE_NODE)\<lparr>name := ''P''\<rparr>"

definition demo_AB :: rwkv_atom where
  "demo_AB = (new_atom 5 RWKV_ATOM_IMPLICATION_LINK)\<lparr>outgoing := [1, 2]\<rparr>"

definition demo_BC :: rwkv_atom where
  "demo_BC = (new_atom 6 RWKV_ATOM_IMPLICATION_LINK)\<lparr>outgoing := [2, 3]\<rparr>"

definition demo_one :: rwkv_atomspace where
  "demo_one =
     \<lparr>atoms = [1 \<mapsto> demo_A], name_index = [''A'' \<mapsto> [1]],
      link_signatures = {}, next_handle = 2\<rparr>"

definition demo_two :: rwkv_atomspace where
  "demo_two =
     \<lparr>atoms = [1 \<mapsto> demo_A, 2 \<mapsto> demo_B],
      name_index = [''A'' \<mapsto> [1], ''B'' \<mapsto> [2]],
      link_signatures = {}, next_handle = 3\<rparr>"

definition demo_nodes :: rwkv_atomspace where
  "demo_nodes =
     \<lparr>atoms = [1 \<mapsto> demo_A, 2 \<mapsto> demo_B, 3 \<mapsto> demo_C, 4 \<mapsto> demo_P],
      name_index = [''A'' \<mapsto> [1], ''B'' \<mapsto> [2], ''C'' \<mapsto> [3], ''P'' \<mapsto> [4]],
      link_signatures = {}, next_handle = 5\<rparr>"

definition demo_nodes_iter :: atom_iteration where
  "demo_nodes_iter = [(1, demo_A), (2, demo_B), (3, demo_C), (4, demo_P)]"

definition demo_five :: rwkv_atomspace where
  "demo_five =
     \<lparr>atoms = [1 \<mapsto> demo_A, 2 \<mapsto> demo_B, 3 \<mapsto> demo_C, 4 \<mapsto> demo_P,
               5 \<mapsto> demo_AB],
      name_index = [''A'' \<mapsto> [1], ''B'' \<mapsto> [2], ''C'' \<mapsto> [3], ''P'' \<mapsto> [4]],
      link_signatures = {''8:1,2''}, next_handle = 6\<rparr>"

definition demo_five_iter :: atom_iteration where
  "demo_five_iter = [(5, demo_AB), (1, demo_A), (2, demo_B), (3, demo_C), (4, demo_P)]"

definition demo_store :: rwkv_atomspace where
  "demo_store =
     \<lparr>atoms = [1 \<mapsto> demo_A, 2 \<mapsto> demo_B, 3 \<mapsto> demo_C, 4 \<mapsto> demo_P,
               5 \<mapsto> demo_AB, 6 \<mapsto> demo_BC],
      name_index = [''A'' \<mapsto> [1], ''B'' \<mapsto> [2], ''C'' \<mapsto> [3], ''P'' \<mapsto> [4]],
      link_signatures = {''8:1,2'', ''8:2,3''}, next_handle = 7\<rparr>"

definition demo_iter :: atom_iteration where
  "demo_iter =
     [(4, demo_P), (6, demo_BC), (1, demo_A), (5, demo_AB), (3, demo_C), (2, demo_B)]"

text \<open>
  Two variations: the store after Implication(B, A) instead of Implication(B, C), and the
  store after Implication(A, A) as the second atom.
\<close>

definition demo_BA :: rwkv_atom where
  "demo_BA = (new_atom 6 RWKV_ATOM_IMPLICATION_LINK)\<lparr>outgoing := [2, 1]\<rparr>"


definition demo_AA :: rwkv_atom where
  "demo_AA = (new_atom 2 RWKV_ATOM_IMPLICATION_LINK)\<lparr>outgoing := [1, 1]\<rparr>"

definition demo_loop :: rwkv_atomspace where
  "demo_loop =
     \<lparr>atoms = [1 \<mapsto> demo_A, 2 \<mapsto> demo_AA], name_index = [''A'' \<mapsto> [1]],
      link_signatures = {''8:1,1''}, next_handle = 3\<rparr>"

text \<open>The store with the single node that encodes a state whose entry 3 is 0.5.\<close>

definition demo_state_node :: rwkv_atom where
  "demo_state_node =
     \<lparr>handle = 1, type = RWKV_ATOM_CONCEPT_NODE, name = ''state_3'', outgoing = [],
      tv = \<lparr>strength = Fin (1 / 2), confidence = lit_0_8f\<rparr>,
      av = \<lparr>sti = Fin (1 / 2), lti = Fin 0, vlti = Fin 0\<rparr>\<rparr>"

definition demo_bridge :: rwkv_atomspace where
  "demo_bridge =
     \<lparr>atoms = [1 \<mapsto> demo_state_node], name_index = [''state_3'' \<mapsto> [1]],
      link_signatures = {}, next_handle = 2\<rparr>"

text \<open>The store with the single Concept node whose name is empty.\<close>

definition demo_unnamed :: rwkv_atomspace where
  "demo_unnamed =
     \<lparr>atoms = [1 \<mapsto> new_atom 1 RWKV_ATOM_CONCEPT_NODE], name_index = [[] \<mapsto> [1]],
      link_signatures = {}, next_handle = 2\<rparr>"


section \<open>Facts about the store operations\<close>

subsection \<open>Handles stay fresh\<close>

lemma wf_handles_fresh: "wf_handles s \<Longrightarrow> atoms s (next_handle s) = None"
  unfolding wf_handles_def by (cases "atoms s (next_handle s)") auto

lemma wf_handles_next_nonzero: "wf_handles s \<Longrightarrow> next_handle s \<noteq> 0"
  unfolding wf_handles_def by (metis Suc_eq_plus1 Zero_not_Suc unat_0)

lemma has_room_unat:
  assumes "wf_handles s" "has_room s"
  shows "unat (next_handle s + 1) = unat (next_handle s) + 1"
    and "next_handle s < next_handle s + 1"
proof -
  have "unat (next_handle s) < 2 ^ 64 - 1"
    using assms by (simp add: wf_handles_def has_room_def rwkv_atomspace_get_size_def)
  then have *: "unat (next_handle s) + unat (1 :: 64 word) < 2 ^ LENGTH(64)" by simp
  then show "unat (next_handle s + 1) = unat (next_handle s) + 1"
    using unat_add_lem[of "next_handle s" 1] by simp
  then show "next_handle s < next_handle s + 1"
    by (simp add: word_less_nat_alt)
qed

lemma wf_handles_insert:
  assumes "wf_handles s" "has_room s" "handle a = next_handle s"
  shows "wf_handles (s\<lparr>next_handle := next_handle s + 1, atoms := (atoms s)(next_handle s \<mapsto> a), name_index := ni\<rparr>)"
    and "wf_handles (s\<lparr>next_handle := next_handle s + 1, atoms := (atoms s)(next_handle s \<mapsto> a), link_signatures := ls\<rparr>)"
proof -
  note fr = wf_handles_fresh[OF assms(1)]
  note nz = wf_handles_next_nonzero[OF assms(1)]
  note u = has_room_unat[OF assms(1,2)]
  have old: "handle b = h \<and> h \<noteq> 0 \<and> h < next_handle s + 1" if "atoms s h = Some b" for h b
  proof -
    have "handle b = h \<and> h \<noteq> 0 \<and> h < next_handle s"
      using assms(1) that unfolding wf_handles_def by blast
    then show ?thesis using u(2) by auto
  qed
  have fin: "finite (dom (atoms s))" and c: "card (dom (atoms s)) + 1 = unat (next_handle s)"
    using assms(1) unfolding wf_handles_def by auto
  have notin: "next_handle s \<notin> dom (atoms s)" using fr by (simp add: domIff)
  have c': "card (insert (next_handle s) (dom (atoms s))) + 1 = unat (next_handle s + 1)"
    using fin notin c u(1) by simp
  show "wf_handles (s\<lparr>next_handle := next_handle s + 1, atoms := (atoms s)(next_handle s \<mapsto> a), name_index := ni\<rparr>)"
    unfolding wf_handles_def using fin c' old assms(3) nz u(2) by auto
  show "wf_handles (s\<lparr>next_handle := next_handle s + 1, atoms := (atoms s)(next_handle s \<mapsto> a), link_signatures := ls\<rparr>)"
    unfolding wf_handles_def using fin c' old assms(3) nz u(2) by auto
qed


lemma wf_handles_update:
  assumes "wf_handles s" "atoms s h = Some a" "handle a' = handle a"
  shows "wf_handles (s\<lparr>atoms := (atoms s)(h \<mapsto> a')\<rparr>)"
proof -
  have d: "insert h (dom (atoms s)) = dom (atoms s)" using assms(2) by auto
  show ?thesis
    using assms unfolding wf_handles_def by (auto simp: d)
qed

lemma wf_names_update:
  assumes "wf_names s" "atoms s h = Some a" "type a' = type a" "name a' = name a"
  shows "wf_names (s\<lparr>atoms := (atoms s)(h \<mapsto> a')\<rparr>)"
proof -
  have 1: "\<exists>b. ((atoms s)(h \<mapsto> a')) k = Some b \<and> name b = n \<and> is_node_type (type b)"
    if nm: "name_index s n = Some hs" "k \<in> set hs" for n hs k
  proof -
    obtain b where b: "atoms s k = Some b" "name b = n" "is_node_type (type b)"
      using assms(1) nm unfolding wf_names_def by blast
    show ?thesis
    proof (cases "k = h")
      case True
      then have "b = a" using b(1) assms(2) by simp
      then show ?thesis using True b assms(3,4) by simp
    next
      case False
      then show ?thesis using b by simp
    qed
  qed
  have 2: "\<exists>hs. name_index s (name b) = Some hs \<and> k \<in> set hs"
    if "((atoms s)(h \<mapsto> a')) k = Some b" "is_node_type (type b)" for k b
  proof (cases "k = h")
    case True
    then have "b = a'" using that(1) by simp
    then have "is_node_type (type a)" "name b = name a" using that(2) assms(3,4) by simp_all
    then show ?thesis using assms(1,2) True unfolding wf_names_def by metis
  next
    case False
    then have "atoms s k = Some b" using that(1) by simp
    then show ?thesis using assms(1) that(2) unfolding wf_names_def by blast
  qed
  show ?thesis unfolding wf_names_def using 1 2 by simp
qed

lemma wf_links_update:
  assumes "wf_links s" "atoms s h = Some a" "type a' = type a" "outgoing a' = outgoing a"
  shows "wf_links (s\<lparr>atoms := (atoms s)(h \<mapsto> a')\<rparr>)"
proof -
  have old: "\<exists>c. atoms s k = Some c \<and> type c = type b \<and> outgoing c = outgoing b"
    if "((atoms s)(h \<mapsto> a')) k = Some b" for k b
    using that assms(2,3,4) by (cases "k = h") auto
  have 1: "create_link_signature (type b) (outgoing b) \<in> link_signatures s"
    if kb: "((atoms s)(h \<mapsto> a')) k = Some b" "is_link_type (type b)" for k b
  proof -
    obtain c where "atoms s k = Some c" "type c = type b" "outgoing c = outgoing b"
      using old[OF kb(1)] by blast
    then show ?thesis using assms(1) kb(2) unfolding wf_links_def by force
  qed
  have 2: "k' = k"
    if kb: "((atoms s)(h \<mapsto> a')) k = Some b" "((atoms s)(h \<mapsto> a')) k' = Some b'"
       "is_link_type (type b)" "type b' = type b" "outgoing b' = outgoing b" for k b k' b'
  proof -
    obtain c where c: "atoms s k = Some c" "type c = type b" "outgoing c = outgoing b"
      using old[OF kb(1)] by blast
    obtain c' where c': "atoms s k' = Some c'" "type c' = type b'" "outgoing c' = outgoing b'"
      using old[OF kb(2)] by blast
    have "is_link_type (type c)" "type c' = type c" "outgoing c' = outgoing c"
      using c c' kb by simp_all
    then show ?thesis using assms(1) c(1) c'(1) unfolding wf_links_def by blast
  qed
  show ?thesis
    unfolding wf_links_def
  proof (intro conjI allI impI)
    fix k b
    assume "atoms (s\<lparr>atoms := (atoms s)(h \<mapsto> a')\<rparr>) k = Some b" "is_link_type (type b)"
    then show "create_link_signature (type b) (outgoing b)
               \<in> link_signatures (s\<lparr>atoms := (atoms s)(h \<mapsto> a')\<rparr>)"
      using 1[of k b] by simp
  next
    fix k b k' b'
    assume "atoms (s\<lparr>atoms := (atoms s)(h \<mapsto> a')\<rparr>) k = Some b"
      "atoms (s\<lparr>atoms := (atoms s)(h \<mapsto> a')\<rparr>) k' = Some b'"
      "is_link_type (type b)" "type b' = type b" "outgoing b' = outgoing b"
    then show "k' = k" using 2[of k b k' b'] by simp
  qed
qed

subsection \<open>The cases of a creation call\<close>

lemma wf_handlesD:
  "wf_handles s \<Longrightarrow> atoms s h = Some a \<Longrightarrow> handle a = h \<and> h \<noteq> 0 \<and> h < next_handle s"
  unfolding wf_handles_def by blast

lemma wf_names_indexD:
  "wf_names s \<Longrightarrow> name_index s n = Some hs \<Longrightarrow> h \<in> set hs \<Longrightarrow>
   \<exists>a. atoms s h = Some a \<and> name a = n \<and> is_node_type (type a)"
  unfolding wf_names_def by blast

lemma wf_names_nodeD:
  "wf_names s \<Longrightarrow> atoms s h = Some a \<Longrightarrow> is_node_type (type a) \<Longrightarrow>
   \<exists>hs. name_index s (name a) = Some hs \<and> h \<in> set hs"
  unfolding wf_names_def by blast

lemma wf_links_sigD:
  "wf_links s \<Longrightarrow> atoms s h = Some a \<Longrightarrow> is_link_type (type a) \<Longrightarrow>
   create_link_signature (type a) (outgoing a) \<in> link_signatures s"
  unfolding wf_links_def by blast

lemma wf_links_uniqueD:
  "wf_links s \<Longrightarrow> atoms s h = Some a \<Longrightarrow> atoms s h' = Some a' \<Longrightarrow> is_link_type (type a) \<Longrightarrow>
   type a' = type a \<Longrightarrow> outgoing a' = outgoing a \<Longrightarrow> h' = h"
  unfolding wf_links_def by blast

lemma add_node_found:
  "is_node_type t \<Longrightarrow> existing_node s t n = Some h \<Longrightarrow>
   rwkv_atomspace_add_node (Some s) t (Some n) = (h, Some s)"
  by (simp add: rwkv_atomspace_add_node_def)

lemma add_node_new:
  "is_node_type t \<Longrightarrow> existing_node s t n = None \<Longrightarrow>
   rwkv_atomspace_add_node (Some s) t (Some n) =
     (next_handle s,
      Some (s\<lparr>next_handle := next_handle s + 1,
              atoms := (atoms s)(next_handle s \<mapsto> (new_atom (next_handle s) t)\<lparr>name := n\<rparr>),
              name_index := (name_index s)(n \<mapsto>
                 (case name_index s n of None \<Rightarrow> [] | Some hs \<Rightarrow> hs) @ [next_handle s])\<rparr>))"
  by (simp add: rwkv_atomspace_add_node_def Let_def)

lemma add_node_rejects:
  "\<not> is_node_type t \<Longrightarrow> rwkv_atomspace_add_node (Some s) t np = (RWKV_INVALID_ATOM_HANDLE, Some s)"
  "rwkv_atomspace_add_node (Some s) t None = (RWKV_INVALID_ATOM_HANDLE, Some s)"
  by (simp_all add: rwkv_atomspace_add_node_def split: option.splits)

lemma existing_node_SomeD:
  assumes "existing_node s t n = Some h"
  shows "\<exists>a hs. atoms s h = Some a \<and> type a = t \<and> name_index s n = Some hs \<and> h \<in> set hs"
proof -
  obtain hs where hs: "name_index s n = Some hs"
    and f: "List.find (\<lambda>h. case atoms s h of Some a \<Rightarrow> type a = t | None \<Rightarrow> False) hs = Some h"
    using assms unfolding existing_node_def by (cases "name_index s n") auto
  from f have "h \<in> set hs" "(case atoms s h of Some a \<Rightarrow> type a = t | None \<Rightarrow> False)"
    by (auto simp: find_Some_iff)
  then show ?thesis using hs by (cases "atoms s h") auto
qed

lemma existing_node_NoneD:
  assumes "existing_node s t n = None" "name_index s n = Some hs" "h \<in> set hs" "atoms s h = Some a"
  shows "type a \<noteq> t"
proof -
  have "List.find (\<lambda>h. case atoms s h of Some a \<Rightarrow> type a = t | None \<Rightarrow> False) hs = None"
    using assms(1,2) unfolding existing_node_def by simp
  then have "\<not> (case atoms s h of Some a \<Rightarrow> type a = t | None \<Rightarrow> False)"
    using assms(3) by (auto simp: find_None_iff)
  then show ?thesis using assms(4) by simp
qed

text \<open>With the name invariant, the lookup decides whether a node of that type and name is stored.\<close>

lemma existing_node_Some_iff_stored:
  assumes "wf_names s" "is_node_type t"
  shows "(\<exists>h. existing_node s t n = Some h) \<longleftrightarrow> (\<exists>h a. atoms s h = Some a \<and> type a = t \<and> name a = n)"
proof
  assume "\<exists>h. existing_node s t n = Some h"
  then obtain h where h: "existing_node s t n = Some h" by blast
  then obtain a hs where a: "atoms s h = Some a" "type a = t" "name_index s n = Some hs" "h \<in> set hs"
    using existing_node_SomeD by blast
  then have "name a = n" using wf_names_indexD[OF assms(1) a(3,4)] by auto
  then show "\<exists>h a. atoms s h = Some a \<and> type a = t \<and> name a = n" using a by blast
next
  assume "\<exists>h a. atoms s h = Some a \<and> type a = t \<and> name a = n"
  then obtain h a where a: "atoms s h = Some a" "type a = t" "name a = n" by blast
  then obtain hs where hs: "name_index s n = Some hs" "h \<in> set hs"
    using wf_names_nodeD[OF assms(1) a(1)] assms(2) by auto
  show "\<exists>h. existing_node s t n = Some h"
  proof (cases "existing_node s t n")
    case None
    then show ?thesis using existing_node_NoneD[OF None hs a(1)] a(2) by simp
  next
    case (Some k)
    then show ?thesis by blast
  qed
qed


lemma iteration_of_mem:
  "iteration_of s iter \<Longrightarrow> (h, a) \<in> set iter \<longleftrightarrow> atoms s h = Some a"
  unfolding iteration_of_def by (metis map_of_eq_Some_iff)


lemma existing_link_NoneD:
  assumes "existing_link iter s t out = None" "iteration_of s iter" "wf_links s" "is_link_type t"
    "atoms s h = Some a" "type a = t"
  shows "outgoing a \<noteq> out"
proof
  assume o: "outgoing a = out"
  have "create_link_signature t out \<in> link_signatures s"
    using wf_links_sigD[OF assms(3,5)] assms(4,6) o by simp
  then have "List.find (\<lambda>(h, a). type a = t \<and> length (outgoing a) = length out \<and> outgoing a = out) iter = None"
    using assms(1) unfolding existing_link_def by simp
  moreover have "(h, a) \<in> set iter" using iteration_of_mem[OF assms(2)] assms(5) by blast
  ultimately show False using assms(6) o by (auto simp: find_None_iff)
qed

lemma add_link_found:
  "is_link_type t \<Longrightarrow> out \<noteq> [] \<Longrightarrow> \<forall>h\<in>set out. atoms s h \<noteq> None \<Longrightarrow>
   existing_link iter s t out = Some h \<Longrightarrow>
   rwkv_atomspace_add_link iter (Some s) t (Some out) = (h, Some s)"
  by (simp add: rwkv_atomspace_add_link_def list_all_iff)

lemma add_link_new:
  "is_link_type t \<Longrightarrow> out \<noteq> [] \<Longrightarrow> \<forall>h\<in>set out. atoms s h \<noteq> None \<Longrightarrow>
   existing_link iter s t out = None \<Longrightarrow>
   rwkv_atomspace_add_link iter (Some s) t (Some out) =
     (next_handle s,
      Some (s\<lparr>next_handle := next_handle s + 1,
              atoms := (atoms s)(next_handle s \<mapsto> (new_atom (next_handle s) t)\<lparr>outgoing := out\<rparr>),
              link_signatures := insert (create_link_signature t out) (link_signatures s)\<rparr>))"
  by (simp add: rwkv_atomspace_add_link_def Let_def list_all_iff)

lemma add_link_rejects:
  "\<not> is_link_type t \<or> out = [] \<or> (\<exists>h\<in>set out. atoms s h = None) \<Longrightarrow>
   rwkv_atomspace_add_link iter (Some s) t (Some out) = (RWKV_INVALID_ATOM_HANDLE, Some s)"
  "rwkv_atomspace_add_link iter (Some s) t None = (RWKV_INVALID_ATOM_HANDLE, Some s)"
  by (auto simp add: rwkv_atomspace_add_link_def list_all_iff)

subsection \<open>The invariants are kept\<close>

lemma wf_names_add_node:
  assumes "wf_names s" "atoms s k = None" "is_node_type t"
  shows "wf_names (s\<lparr>next_handle := nh,
              atoms := (atoms s)(k \<mapsto> (new_atom k t)\<lparr>name := n\<rparr>),
              name_index := (name_index s)(n \<mapsto>
                 (case name_index s n of None \<Rightarrow> [] | Some hs \<Rightarrow> hs) @ [k])\<rparr>)"
    (is "wf_names ?s'")
proof -
  let ?a = "(new_atom k t)\<lparr>name := n\<rparr>"
  have na: "name ?a = n" "type ?a = t" by (simp_all add: new_atom_def)
  have 1: "\<exists>b. atoms ?s' h = Some b \<and> name b = m \<and> is_node_type (type b)"
    if i: "name_index ?s' m = Some hs" "h \<in> set hs" for m hs h
  proof (cases "h = k")
    case True
    have "m = n"
    proof (rule ccontr)
      assume "m \<noteq> n"
      then have "name_index s m = Some hs" using i(1) by simp
      then show False using wf_names_indexD[OF assms(1) _ i(2)] True assms(2) by auto
    qed
    then show ?thesis using True na assms(3) by simp
  next
    case False
    have "\<exists>hs0. name_index s m = Some hs0 \<and> h \<in> set hs0"
    proof (cases "m = n")
      case True
      then show ?thesis using i False by (cases "name_index s n") auto
    next
      case False
      then show ?thesis using i by auto
    qed
    then obtain hs0 where "name_index s m = Some hs0" "h \<in> set hs0" by blast
    from wf_names_indexD[OF assms(1) this] show ?thesis using False by simp
  qed
  have 2: "\<exists>hs. name_index ?s' (name b) = Some hs \<and> h \<in> set hs"
    if i: "atoms ?s' h = Some b" "is_node_type (type b)" for h b
  proof (cases "h = k")
    case True
    then have "b = ?a" using i(1) by simp
    then show ?thesis using True na by simp
  next
    case False
    then have "atoms s h = Some b" using i(1) by simp
    from wf_names_nodeD[OF assms(1) this i(2)]
    obtain hs where "name_index s (name b) = Some hs" "h \<in> set hs" by blast
    then show ?thesis by (cases "name b = n") auto
  qed
  show ?thesis unfolding wf_names_def
  proof (intro conjI allI impI)
    fix m hs h assume "name_index ?s' m = Some hs" "h \<in> set hs"
    then show "\<exists>a. atoms ?s' h = Some a \<and> name a = m \<and> is_node_type (type a)" by (rule 1)
  next
    fix h b assume "atoms ?s' h = Some b" "is_node_type (type b)"
    then show "\<exists>hs. name_index ?s' (name b) = Some hs \<and> h \<in> set hs" by (rule 2)
  qed
qed

lemma wf_names_add_link:
  assumes "wf_names s" "atoms s k = None" "is_link_type t"
  shows "wf_names (s\<lparr>next_handle := nh,
              atoms := (atoms s)(k \<mapsto> (new_atom k t)\<lparr>outgoing := out\<rparr>),
              link_signatures := ls\<rparr>)"
    (is "wf_names ?s'")
proof -
  let ?a = "(new_atom k t)\<lparr>outgoing := out\<rparr>"
  have na: "type ?a = t" by (simp add: new_atom_def)
  show ?thesis unfolding wf_names_def
  proof (intro conjI allI impI)
    fix m hs h assume i: "name_index ?s' m = Some hs" "h \<in> set hs"
    then have "name_index s m = Some hs" by simp
    from wf_names_indexD[OF assms(1) this i(2)]
    obtain b where b: "atoms s h = Some b" "name b = m" "is_node_type (type b)" by blast
    then have "h \<noteq> k" using assms(2) by auto
    then show "\<exists>a. atoms ?s' h = Some a \<and> name a = m \<and> is_node_type (type a)"
      using b by simp
  next
    fix h b assume i: "atoms ?s' h = Some b" "is_node_type (type b)"
    have "h \<noteq> k"
    proof
      assume "h = k"
      then have "b = ?a" using i(1) by simp
      then show False using i(2) na assms(3) by (simp add: is_link_type_def)
    qed
    then have "atoms s h = Some b" using i(1) by simp
    from wf_names_nodeD[OF assms(1) this i(2)]
    show "\<exists>hs. name_index ?s' (name b) = Some hs \<and> h \<in> set hs" by simp
  qed
qed

lemma wf_links_add_node:
  assumes "wf_links s" "atoms s k = None" "is_node_type t"
  shows "wf_links (s\<lparr>next_handle := nh,
              atoms := (atoms s)(k \<mapsto> (new_atom k t)\<lparr>name := n\<rparr>),
              name_index := ni\<rparr>)"
    (is "wf_links ?s'")
proof -
  let ?a = "(new_atom k t)\<lparr>name := n\<rparr>"
  have na: "type ?a = t" by (simp add: new_atom_def)
  have old: "atoms s h = Some b" if i: "atoms ?s' h = Some b" "is_link_type (type b)" for h b
  proof -
    have "h \<noteq> k"
    proof
      assume "h = k"
      then have "b = ?a" using i(1) by simp
      then show False using i(2) na assms(3) by (simp add: is_link_type_def)
    qed
    then show ?thesis using i(1) by simp
  qed
  show ?thesis unfolding wf_links_def
  proof (intro conjI allI impI)
    fix h b assume i: "atoms ?s' h = Some b" "is_link_type (type b)"
    from wf_links_sigD[OF assms(1) old[OF i] i(2)]
    show "create_link_signature (type b) (outgoing b) \<in> link_signatures ?s'" by simp
  next
    fix h b h' b'
    assume i: "atoms ?s' h = Some b" "atoms ?s' h' = Some b'" "is_link_type (type b)"
      "type b' = type b" "outgoing b' = outgoing b"
    have "is_link_type (type b')" using i(3,4) by simp
    from wf_links_uniqueD[OF assms(1) old[OF i(1,3)] old[OF i(2) this] i(3,4,5)]
    show "h' = h" .
  qed
qed

lemma wf_links_add_link:
  assumes "wf_links s" "atoms s k = None" "is_link_type t"
    and none: "\<And>h a. atoms s h = Some a \<Longrightarrow> type a = t \<Longrightarrow> outgoing a \<noteq> out"
  shows "wf_links (s\<lparr>next_handle := nh,
              atoms := (atoms s)(k \<mapsto> (new_atom k t)\<lparr>outgoing := out\<rparr>),
              link_signatures := insert (create_link_signature t out) (link_signatures s)\<rparr>)"
    (is "wf_links ?s'")
proof -
  let ?a = "(new_atom k t)\<lparr>outgoing := out\<rparr>"
  have na: "type ?a = t" "outgoing ?a = out" by (simp_all add: new_atom_def)
  have split: "(h = k \<and> b = ?a) \<or> (h \<noteq> k \<and> atoms s h = Some b)" if "atoms ?s' h = Some b" for h b
    using that by (cases "h = k") auto
  show ?thesis unfolding wf_links_def
  proof (intro conjI allI impI)
    fix h b assume i: "atoms ?s' h = Some b" "is_link_type (type b)"
    from split[OF i(1)] show "create_link_signature (type b) (outgoing b) \<in> link_signatures ?s'"
    proof
      assume "h = k \<and> b = ?a"
      then show ?thesis using na by simp
    next
      assume "h \<noteq> k \<and> atoms s h = Some b"
      then have "atoms s h = Some b" by simp
      from wf_links_sigD[OF assms(1) this i(2)] show ?thesis by simp
    qed
  next
    fix h b h' b'
    assume i: "atoms ?s' h = Some b" "atoms ?s' h' = Some b'" "is_link_type (type b)"
      "type b' = type b" "outgoing b' = outgoing b"
    from split[OF i(1)] split[OF i(2)] show "h' = h"
    proof (elim disjE conjE)
      assume "h = k" "h' = k" then show ?thesis by simp
    next
      assume "h = k" "b = ?a" "atoms s h' = Some b'"
      then show ?thesis using none[of h' b'] i(4,5) na by simp
    next
      assume "h' = k" "b' = ?a" "atoms s h = Some b"
      then show ?thesis using none[of h b] i(4,5) na by simp
    next
      assume o: "atoms s h = Some b" "atoms s h' = Some b'"
      show ?thesis by (rule wf_links_uniqueD[OF assms(1) o i(3,4,5)])
    qed
  qed
qed


lemma create_wf:
  assumes "rwkv_atomspace_create True = Some s"
  shows "wf_handles s" "wf_names s" "wf_links s"
proof -
  have s: "s = \<lparr>atoms = Map.empty, name_index = Map.empty, link_signatures = {}, next_handle = 1\<rparr>"
    using assms by (simp add: rwkv_atomspace_create_def new_atomspace_def)
  show "wf_handles s" by (simp add: s wf_handles_def)
  show "wf_names s" by (simp add: s wf_names_def)
  show "wf_links s" by (simp add: s wf_links_def)
qed

lemma add_node_cases:
  assumes "rwkv_atomspace_add_node (Some s) t np = (h, Some s')"
  obtains (rejected) "h = RWKV_INVALID_ATOM_HANDLE" "s' = s" "\<not> is_node_type t \<or> np = None"
  | (found) n where "np = Some n" "is_node_type t" "existing_node s t n = Some h" "s' = s"
  | (new) n where "np = Some n" "is_node_type t" "existing_node s t n = None" "h = next_handle s"
      "s' = s\<lparr>next_handle := next_handle s + 1,
              atoms := (atoms s)(next_handle s \<mapsto> (new_atom (next_handle s) t)\<lparr>name := n\<rparr>),
              name_index := (name_index s)(n \<mapsto>
                 (case name_index s n of None \<Rightarrow> [] | Some hs \<Rightarrow> hs) @ [next_handle s])\<rparr>"
proof (cases "is_node_type t")
  case False
  then show ?thesis using assms add_node_rejects(1)[OF False, of s np] rejected by simp
next
  case True
  show ?thesis
  proof (cases np)
    case None
    then show ?thesis using assms add_node_rejects(2)[of s t] rejected by simp
  next
    case (Some n)
    show ?thesis
    proof (cases "existing_node s t n")
      case None
      have "h = next_handle s" and
        "s' = s\<lparr>next_handle := next_handle s + 1,
              atoms := (atoms s)(next_handle s \<mapsto> (new_atom (next_handle s) t)\<lparr>name := n\<rparr>),
              name_index := (name_index s)(n \<mapsto>
                 (case name_index s n of None \<Rightarrow> [] | Some hs \<Rightarrow> hs) @ [next_handle s])\<rparr>"
        using assms[unfolded Some] add_node_new[OF True None, of ] by (metis prod.inject option.inject)+
      then show ?thesis by (rule new[OF Some True None])
    next
      case (Some k)
      have "k = h" "s' = s" using assms add_node_found[OF True Some] \<open>np = Some n\<close> by simp_all
      then show ?thesis using found[OF \<open>np = Some n\<close> True] Some by simp
    qed
  qed
qed

lemma add_link_cases:
  assumes "rwkv_atomspace_add_link iter (Some s) t op = (h, Some s')"
  obtains (rejected) "h = RWKV_INVALID_ATOM_HANDLE" "s' = s"
      "op = None \<or> \<not> is_link_type t \<or> the op = [] \<or> (\<exists>k\<in>set (the op). atoms s k = None)"
  | (found) out where "op = Some out" "is_link_type t" "out \<noteq> []" "\<forall>k\<in>set out. atoms s k \<noteq> None"
      "existing_link iter s t out = Some h" "s' = s"
  | (new) out where "op = Some out" "is_link_type t" "out \<noteq> []" "\<forall>k\<in>set out. atoms s k \<noteq> None"
      "existing_link iter s t out = None" "h = next_handle s"
      "s' = s\<lparr>next_handle := next_handle s + 1,
              atoms := (atoms s)(next_handle s \<mapsto> (new_atom (next_handle s) t)\<lparr>outgoing := out\<rparr>),
              link_signatures := insert (create_link_signature t out) (link_signatures s)\<rparr>"
proof (cases op)
  case None
  then show ?thesis using assms add_link_rejects(2)[of iter s t] rejected by simp
next
  case (Some out)
  show ?thesis
  proof (cases "\<not> is_link_type t \<or> out = [] \<or> (\<exists>h\<in>set out. atoms s h = None)")
    case True
    then show ?thesis using assms add_link_rejects(1)[OF True, of iter] Some rejected by auto
  next
    case False
    then have ok: "is_link_type t" "out \<noteq> []" "\<forall>h\<in>set out. atoms s h \<noteq> None" by auto
    show ?thesis
    proof (cases "existing_link iter s t out")
      case None
      have "h = next_handle s" and
        "s' = s\<lparr>next_handle := next_handle s + 1,
              atoms := (atoms s)(next_handle s \<mapsto> (new_atom (next_handle s) t)\<lparr>outgoing := out\<rparr>),
              link_signatures := insert (create_link_signature t out) (link_signatures s)\<rparr>"
        using assms[unfolded Some] add_link_new[OF ok None, of ] by (metis prod.inject option.inject)+
      then show ?thesis by (rule new[OF Some ok None])
    next
      case (Some k)
      have "k = h" "s' = s" using assms add_link_found[OF ok Some] \<open>op = Some out\<close> by simp_all
      then show ?thesis using found[OF \<open>op = Some out\<close> ok] Some by simp
    qed
  qed
qed

lemma set_truth_value_fields:
  assumes "rwkv_atom_set_truth_value (Some a) tp = (ok, Some a')"
  shows "handle a' = handle a \<and> type a' = type a \<and> name a' = name a \<and> outgoing a' = outgoing a \<and> av a' = av a"
  using assms by (cases tp) (auto simp: rwkv_atom_set_truth_value_def Let_def)

lemma set_attention_value_fields:
  assumes "rwkv_atom_set_attention_value (Some a) ap = (ok, Some a')"
  shows "handle a' = handle a \<and> type a' = type a \<and> name a' = name a \<and> outgoing a' = outgoing a \<and> tv a' = tv a"
  using assms by (cases ap) (auto simp: rwkv_atom_set_attention_value_def)

lemma get_atom_SomeD:
  "rwkv_atomspace_get_atom (Some s) h = Some a \<Longrightarrow> atoms s h = Some a \<and> h \<noteq> 0"
  by (auto simp: rwkv_atomspace_get_atom_def RWKV_INVALID_ATOM_HANDLE_def split: if_splits)

lemma reachable_wf:
  "reachable s \<Longrightarrow> wf_handles s \<and> wf_names s \<and> wf_links s"
proof (induction rule: reachable.induct)
  case (create s)
  then show ?case using create_wf by blast
next
  case (add_node s t name_ptr h s')
  then have wf: "wf_handles s" "wf_names s" "wf_links s" by simp_all
  note fr = wf_handles_fresh[OF wf(1)]
  from add_node.hyps(3) show ?case
  proof (cases rule: add_node_cases)
    case rejected
    then show ?thesis using wf by simp
  next
    case (found n)
    then show ?thesis using wf by simp
  next
    case (new n)
    have "handle ((new_atom (next_handle s) t)\<lparr>name := n\<rparr>) = next_handle s"
      by (simp add: new_atom_def)
    then have 1: "wf_handles s'"
      unfolding new(5) by (rule wf_handles_insert(1)[OF wf(1) add_node.hyps(2)])
    have 2: "wf_names s'"
      unfolding new(5) by (rule wf_names_add_node[OF wf(2) fr new(2)])
    have 3: "wf_links s'"
      unfolding new(5) by (rule wf_links_add_node[OF wf(3) fr new(2)])
    show ?thesis using 1 2 3 by simp
  qed
next
  case (add_link s iter t outgoing_ptr h s')
  then have wf: "wf_handles s" "wf_names s" "wf_links s" by simp_all
  note fr = wf_handles_fresh[OF wf(1)]
  from add_link.hyps(4) show ?case
  proof (cases rule: add_link_cases)
    case rejected
    then show ?thesis using wf by simp
  next
    case (found out)
    then show ?thesis using wf by simp
  next
    case (new out)
    have hd: "handle ((new_atom (next_handle s) t)\<lparr>outgoing := out\<rparr>) = next_handle s"
      by (simp add: new_atom_def)
    have none: "outgoing a \<noteq> out" if "atoms s k = Some a" "type a = t" for k a
      using existing_link_NoneD[OF new(5) add_link.hyps(3) wf(3) new(2) that] .
    have 1: "wf_handles s'"
      unfolding new(7) by (rule wf_handles_insert(2)[OF wf(1) add_link.hyps(2) hd])
    have 2: "wf_names s'"
      unfolding new(7) by (rule wf_names_add_link[OF wf(2) fr new(2)])
    have 3: "wf_links s'"
      unfolding new(7) by (rule wf_links_add_link[OF wf(3) fr new(2) none])
    show ?thesis using 1 2 3 by simp
  qed
next
  case (set_truth_value s h a tv_ptr ok a')
  then have wf: "wf_handles s" "wf_names s" "wf_links s" by simp_all
  from get_atom_SomeD[OF set_truth_value.hyps(2)] have a: "atoms s h = Some a" by simp
  from set_truth_value_fields[OF set_truth_value.hyps(3)]
  have f: "handle a' = handle a" "type a' = type a" "name a' = name a" "outgoing a' = outgoing a"
    by simp_all
  show ?case
    using wf_handles_update[OF wf(1) a f(1)] wf_names_update[OF wf(2) a f(2,3)]
      wf_links_update[OF wf(3) a f(2,4)] by blast
next
  case (set_attention_value s h a av_ptr ok a')
  then have wf: "wf_handles s" "wf_names s" "wf_links s" by simp_all
  from get_atom_SomeD[OF set_attention_value.hyps(2)] have a: "atoms s h = Some a" by simp
  from set_attention_value_fields[OF set_attention_value.hyps(3)]
  have f: "handle a' = handle a" "type a' = type a" "name a' = name a" "outgoing a' = outgoing a"
    by simp_all
  show ?case
    using wf_handles_update[OF wf(1) a f(1)] wf_names_update[OF wf(2) a f(2,3)]
      wf_links_update[OF wf(3) a f(2,4)] by blast
qed

subsection \<open>Walking the atoms\<close>

lemma count_loop_filter:
  "count_loop p iter c = c + length (filter (\<lambda>x. p (type (snd x))) iter)"
  by (induction iter arbitrary: c) auto

lemma iteration_filter_keys:
  assumes "iteration_of s iter"
  shows "set (map fst (filter (\<lambda>x. Q (fst x) (snd x)) iter)) = {h. \<exists>a. atoms s h = Some a \<and> Q h a}"
    and "distinct (map fst (filter (\<lambda>x. Q (fst x) (snd x)) iter))"
proof -
  have m: "(h, a) \<in> set iter \<longleftrightarrow> atoms s h = Some a" for h a
    by (rule iteration_of_mem[OF assms])
  show "set (map fst (filter (\<lambda>x. Q (fst x) (snd x)) iter)) = {h. \<exists>a. atoms s h = Some a \<and> Q h a}"
  proof (intro set_eqI iffI)
    fix h assume "h \<in> set (map fst (filter (\<lambda>x. Q (fst x) (snd x)) iter))"
    then obtain x where x: "x \<in> set iter" "Q (fst x) (snd x)" "h = fst x" by auto
    have "(h, snd x) \<in> set iter" using x(1,3) by simp
    then have "atoms s h = Some (snd x)" using m by simp
    then show "h \<in> {h. \<exists>a. atoms s h = Some a \<and> Q h a}" using x(2,3) by blast
  next
    fix h assume "h \<in> {h. \<exists>a. atoms s h = Some a \<and> Q h a}"
    then obtain a where a: "atoms s h = Some a" "Q h a" by blast
    have "(h, a) \<in> set iter" using m a(1) by simp
    then have "(h, a) \<in> set (filter (\<lambda>x. Q (fst x) (snd x)) iter)" using a(2) by simp
    then have "fst (h, a) \<in> fst ` set (filter (\<lambda>x. Q (fst x) (snd x)) iter)" by (rule imageI)
    then show "h \<in> set (map fst (filter (\<lambda>x. Q (fst x) (snd x)) iter))" by simp
  qed
  have "distinct (map fst iter)" using assms unfolding iteration_of_def by simp
  then show "distinct (map fst (filter (\<lambda>x. Q (fst x) (snd x)) iter))"
    by (rule distinct_map_filter)
qed

lemma iteration_filter_length:
  assumes "iteration_of s iter"
  shows "length (filter (\<lambda>x. Q (fst x) (snd x)) iter) = card {h. \<exists>a. atoms s h = Some a \<and> Q h a}"
proof -
  note k = iteration_filter_keys[OF assms, of Q]
  have "card {h. \<exists>a. atoms s h = Some a \<and> Q h a}
        = card (set (map fst (filter (\<lambda>x. Q (fst x) (snd x)) iter)))"
    by (simp only: k(1))
  also have "\<dots> = length (map fst (filter (\<lambda>x. Q (fst x) (snd x)) iter))"
    by (rule distinct_card[OF k(2)])
  finally show ?thesis by simp
qed

lemma node_count_card:
  assumes "iteration_of s iter"
  shows "rwkv_atomspace_get_node_count iter (Some s) =
         card {h. \<exists>a. atoms s h = Some a \<and> is_node_type (type a)}"
  using iteration_filter_length[OF assms, of "\<lambda>h a. is_node_type (type a)"]
  by (simp add: rwkv_atomspace_get_node_count_def count_loop_filter)

lemma find_append_last:
  "\<forall>x\<in>set xs. \<not> P x \<Longrightarrow> P y \<Longrightarrow> List.find P (xs @ [y]) = Some y"
  by (induction xs) auto

lemma existing_node_after_new:
  assumes "wf_names s" "atoms s k = None" "existing_node s t n = None"
  shows "existing_node (s\<lparr>next_handle := nh,
            atoms := (atoms s)(k \<mapsto> (new_atom k t)\<lparr>name := n\<rparr>),
            name_index := (name_index s)(n \<mapsto>
               (case name_index s n of None \<Rightarrow> [] | Some hs \<Rightarrow> hs) @ [k])\<rparr>) t n = Some k"
    (is "existing_node ?s' t n = Some k")
proof -
  let ?old = "case name_index s n of None \<Rightarrow> [] | Some hs \<Rightarrow> hs"
  let ?P = "\<lambda>h. case atoms ?s' h of Some a \<Rightarrow> type a = t | None \<Rightarrow> False"
  have old: "\<not> ?P h" if h: "h \<in> set ?old" for h
  proof -
    obtain hs where hs: "name_index s n = Some hs" "h \<in> set hs"
      using h by (cases "name_index s n") auto
    obtain a where a: "atoms s h = Some a" using wf_names_indexD[OF assms(1) hs] by blast
    then have "h \<noteq> k" using assms(2) by auto
    then have "atoms ?s' h = Some a" using a by simp
    moreover have "type a \<noteq> t" using existing_node_NoneD[OF assms(3) hs a] .
    ultimately show ?thesis by simp
  qed
  have new: "?P k" by (simp add: new_atom_def)
  have allold: "\<forall>h\<in>set ?old. \<not> ?P h"
  proof
    fix h assume "h \<in> set ?old"
    then show "\<not> ?P h" by (rule old)
  qed
  have f: "List.find ?P (?old @ [k]) = Some k"
    using allold new by (rule find_append_last)
  have ni: "name_index ?s' n = Some (?old @ [k])" by simp
  show ?thesis unfolding existing_node_def ni option.case by (rule f)
qed

subsection \<open>What a creation call returns\<close>



lemma add_node_result:
  assumes wh: "wf_handles s" and wn: "wf_names s" and t: "is_node_type t"
    and c: "rwkv_atomspace_add_node (Some s) t (Some n) = (h, Some s')"
  shows "\<exists>a. atoms s' h = Some a \<and> type a = t \<and> name a = n"
    and "h \<noteq> 0"
    and "(s' = s \<and> atoms s h \<noteq> None) \<or>
         (h = next_handle s \<and> atoms s h = None \<and> dom (atoms s') = insert h (dom (atoms s)))"
proof -
  note fr = wf_handles_fresh[OF wh]
  have all: "(\<exists>a. atoms s' h = Some a \<and> type a = t \<and> name a = n) \<and> h \<noteq> 0 \<and>
      ((s' = s \<and> atoms s h \<noteq> None) \<or>
         (h = next_handle s \<and> atoms s h = None \<and> dom (atoms s') = insert h (dom (atoms s))))"
    using c
  proof (cases rule: add_node_cases)
    case rejected
    then show ?thesis using t by simp
  next
    case (found m)
    have mn: "m = n" using found(1) by simp
    have e: "existing_node s t n = Some h" using found(3) unfolding mn .
    from existing_node_SomeD[OF e] obtain a hs where a: "atoms s h = Some a" "type a = t"
      "name_index s n = Some hs" "h \<in> set hs" by blast
    from wf_names_indexD[OF wn a(3,4)] a(1) have nm: "name a = n" by simp
    have "h \<noteq> 0" using wf_handlesD[OF wh a(1)] by simp
    then show ?thesis using found(4) a(1,2) nm by simp
  next
    case (new m)
    have mn: "m = n" using new(1) by simp
    let ?a = "(new_atom (next_handle s) t)\<lparr>name := n\<rparr>"
    have s': "s' = s\<lparr>next_handle := next_handle s + 1,
              atoms := (atoms s)(next_handle s \<mapsto> ?a),
              name_index := (name_index s)(n \<mapsto>
                 (case name_index s n of None \<Rightarrow> [] | Some hs \<Rightarrow> hs) @ [next_handle s])\<rparr>"
      using new(5) unfolding mn .
    have at: "atoms s' = (atoms s)(next_handle s \<mapsto> ?a)" unfolding s' by simp
    have fld: "type ?a = t" "name ?a = n" by (simp_all add: new_atom_def)
    have 1: "\<exists>a. atoms s' h = Some a \<and> type a = t \<and> name a = n"
      unfolding new(4) at using fld by simp
    have 2: "h \<noteq> 0" using wf_handles_next_nonzero[OF wh] new(4) by simp
    have 3: "dom (atoms s') = insert h (dom (atoms s))" unfolding at new(4) by simp
    show ?thesis using 1 2 3 new(4) fr by simp
  qed
  from all show "\<exists>a. atoms s' h = Some a \<and> type a = t \<and> name a = n" by blast
  from all show "h \<noteq> 0" by blast
  from all show "(s' = s \<and> atoms s h \<noteq> None) \<or>
         (h = next_handle s \<and> atoms s h = None \<and> dom (atoms s') = insert h (dom (atoms s)))"
    by blast
qed

lemma add_node_changed:
  assumes "rwkv_atomspace_add_node (Some s) t np = (h, Some s')" "s' \<noteq> s"
  shows "h = next_handle s \<and> atoms s' h \<noteq> None"
  using assms(1)
proof (cases rule: add_node_cases)
  case rejected
  then show ?thesis using assms(2) by simp
next
  case (found n)
  then show ?thesis using assms(2) by simp
next
  case (new n)
  show ?thesis unfolding new(5) new(4) by simp
qed

lemma add_link_changed:
  assumes "rwkv_atomspace_add_link iter (Some s) t op = (h, Some s')" "s' \<noteq> s"
  shows "h = next_handle s \<and> atoms s' h \<noteq> None"
  using assms(1)
proof (cases rule: add_link_cases)
  case rejected
  then show ?thesis using assms(2) by simp
next
  case (found n)
  then show ?thesis using assms(2) by simp
next
  case (new n)
  show ?thesis unfolding new(7) new(6) by simp
qed

subsection \<open>The query loops\<close>

lemma forward_inference_loop_eq:
  "forward_inference_loop p m iter acc =
     (if m \<le> length acc then acc
      else acc @ take (m - length acc)
             (map (\<lambda>x. outgoing (snd x) ! 1)
                (filter (\<lambda>x. type (snd x) = RWKV_ATOM_IMPLICATION_LINK \<and>
                              length (outgoing (snd x)) = 2 \<and> outgoing (snd x) ! 0 = p) iter)))"
proof (induction iter arbitrary: acc)
  case Nil
  then show ?case by simp
next
  case (Cons x iter)
  obtain h a where x: "x = (h, a)" by (cases x)
  show ?case
    unfolding x by (auto simp: Cons.IH take_Cons' Suc_diff_le)
qed

lemma pattern_match_loop_eq:
  "pattern_match_loop t p m iter acc =
     (if m \<le> length acc then acc
      else acc @ take (m - length acc)
             (map fst (filter (\<lambda>x. type (snd x) = t \<and> fst x \<noteq> p) iter)))"
proof (induction iter arbitrary: acc)
  case Nil
  then show ?case by simp
next
  case (Cons x iter)
  obtain h a where x: "x = (h, a)" by (cases x)
  show ?case
    unfolding x by (auto simp: Cons.IH take_Cons' Suc_diff_le)
qed

lemma singleton_list:
  assumes "distinct xs" "set xs = {x}"
  shows "xs = [x]"
proof (cases xs)
  case Nil
  then show ?thesis using assms(2) by simp
next
  case (Cons y ys)
  have "y = x" using assms(2) Cons by auto
  have "set ys \<subseteq> {x}" using assms(2) Cons by auto
  moreover have "x \<notin> set ys" using assms(1) Cons \<open>y = x\<close> by simp
  ultimately have "ys = []" by (cases ys) auto
  then show ?thesis using Cons \<open>y = x\<close> by simp
qed

lemma iteration_size:
  assumes "iteration_of s iter"
  shows "card (dom (atoms s)) = length iter"
proof -
  have d: "distinct (map fst iter)" and m: "map_of iter = atoms s"
    using assms unfolding iteration_of_def by simp_all
  have "dom (atoms s) = set (map fst iter)"
    unfolding m[symmetric] by (simp add: dom_map_of_conv_image_fst)
  then show ?thesis using distinct_card[OF d] by simp
qed

subsection \<open>The example stores are reachable\<close>

lemma reachable_has_room:
  assumes "reachable s" "unat (next_handle s) < 2 ^ 64 - 1"
  shows "has_room s"
proof -
  have "card (dom (atoms s)) + 1 = unat (next_handle s)"
    using reachable_wf[OF assms(1)] unfolding wf_handles_def by blast
  then show ?thesis using assms(2) by (simp add: has_room_def rwkv_atomspace_get_size_def)
qed

lemmas demo_defs = demo_A_def demo_B_def demo_C_def demo_P_def demo_AB_def demo_BC_def
  demo_BA_def demo_AA_def

lemma demo_types:
  "is_node_type RWKV_ATOM_CONCEPT_NODE" "is_link_type RWKV_ATOM_IMPLICATION_LINK"
  by (simp_all add: is_node_type_def is_link_type_def)

lemma demo_signatures:
  "create_link_signature RWKV_ATOM_IMPLICATION_LINK [1, 2] = ''8:1,2''"
  "create_link_signature RWKV_ATOM_IMPLICATION_LINK [2, 3] = ''8:2,3''"
  "create_link_signature RWKV_ATOM_IMPLICATION_LINK [2, 1] = ''8:2,1''"
  "create_link_signature RWKV_ATOM_IMPLICATION_LINK [1, 1] = ''8:1,1''"
  by (simp_all add: create_link_signature_def enumerate_eq_zip to_string.simps digit_char_def)

lemma iteration_new: "iteration_of new_atomspace []"
  by (simp add: iteration_of_def new_atomspace_def)

lemma iteration_demo_one: "iteration_of demo_one [(1, demo_A)]"
  by (simp add: iteration_of_def demo_one_def)

lemma iteration_demo_nodes: "iteration_of demo_nodes demo_nodes_iter"
  unfolding iteration_of_def demo_nodes_def demo_nodes_iter_def
  by (auto simp: fun_eq_iff)

lemma iteration_demo_five: "iteration_of demo_five demo_five_iter"
  unfolding iteration_of_def demo_five_def demo_five_iter_def
  by (auto simp: fun_eq_iff)

lemma iteration_demo: "iteration_of demo_store demo_iter"
  unfolding iteration_of_def demo_store_def demo_iter_def
  by (auto simp: fun_eq_iff)

lemma reachable_new: "reachable new_atomspace"
  by (rule reachable.create) (simp add: rwkv_atomspace_create_def)

lemma add_node_new_A:
  "rwkv_atomspace_add_node (Some new_atomspace) RWKV_ATOM_CONCEPT_NODE (Some ''A'')
   = (1, Some demo_one)"
  by (simp add: rwkv_atomspace_add_node_def is_node_type_def existing_node_def
      new_atomspace_def demo_one_def demo_defs)

lemma add_node_one_A:
  "rwkv_atomspace_add_node (Some demo_one) RWKV_ATOM_CONCEPT_NODE (Some ''A'')
   = (1, Some demo_one)"
  by (simp add: rwkv_atomspace_add_node_def is_node_type_def existing_node_def
      demo_one_def demo_defs new_atom_def)

lemma add_node_one_B:
  "rwkv_atomspace_add_node (Some demo_one) RWKV_ATOM_CONCEPT_NODE (Some ''B'')
   = (2, Some demo_two)"
  by (simp add: rwkv_atomspace_add_node_def is_node_type_def existing_node_def
      demo_one_def demo_two_def demo_defs)

lemma add_link_one_AA:
  "rwkv_atomspace_add_link [(1, demo_A)] (Some demo_one) RWKV_ATOM_IMPLICATION_LINK
     (Some [1, 1]) = (2, Some demo_loop)"
  by (simp add: rwkv_atomspace_add_link_def is_link_type_def is_node_type_def
      existing_link_def demo_signatures demo_one_def demo_loop_def demo_AA_def)

lemma add_link_nodes_AB:
  "rwkv_atomspace_add_link demo_nodes_iter (Some demo_nodes) RWKV_ATOM_IMPLICATION_LINK
     (Some [1, 2]) = (5, Some demo_five)"
  by (simp add: rwkv_atomspace_add_link_def is_link_type_def is_node_type_def
      existing_link_def demo_signatures demo_nodes_def demo_five_def demo_AB_def)


lemma add_link_five_BC:
  "rwkv_atomspace_add_link demo_five_iter (Some demo_five) RWKV_ATOM_IMPLICATION_LINK
     (Some [2, 3]) = (6, Some demo_store)"
  by (simp add: rwkv_atomspace_add_link_def is_link_type_def is_node_type_def
      existing_link_def demo_signatures demo_five_def demo_store_def demo_BC_def insert_commute)


lemma reachable_demo_one: "reachable demo_one"
  by (rule reachable.add_node[OF reachable_new reachable_has_room[OF reachable_new] add_node_new_A])
     (simp add: new_atomspace_def)

lemma reachable_demo_nodes: "reachable demo_nodes"
proof -
  let ?s3 = "\<lparr>atoms = [1 \<mapsto> demo_A, 2 \<mapsto> demo_B, 3 \<mapsto> demo_C],
      name_index = [''A'' \<mapsto> [1], ''B'' \<mapsto> [2], ''C'' \<mapsto> [3]],
      link_signatures = {}, next_handle = 4\<rparr>"
  have e3: "rwkv_atomspace_add_node (Some demo_two) RWKV_ATOM_CONCEPT_NODE (Some ''C'')
            = (3, Some ?s3)"
    by (simp add: rwkv_atomspace_add_node_def is_node_type_def existing_node_def demo_defs
        demo_two_def)
  have e4: "rwkv_atomspace_add_node (Some ?s3) RWKV_ATOM_PREDICATE_NODE (Some ''P'')
            = (4, Some demo_nodes)"
    by (simp add: rwkv_atomspace_add_node_def is_node_type_def existing_node_def demo_defs
        demo_nodes_def)
  note r1 = reachable_demo_one
  have r2: "reachable demo_two"
    by (rule reachable.add_node[OF r1 reachable_has_room[OF r1] add_node_one_B])
       (simp add: demo_one_def)
  have r3: "reachable ?s3"
    by (rule reachable.add_node[OF r2 reachable_has_room[OF r2] e3]) (simp add: demo_two_def)
  show ?thesis
    by (rule reachable.add_node[OF r3 reachable_has_room[OF r3] e4]) simp
qed

lemma has_room_demo_nodes: "has_room demo_nodes"
  by (rule reachable_has_room[OF reachable_demo_nodes]) (simp add: demo_nodes_def)

lemma reachable_demo_five: "reachable demo_five"
  by (rule reachable.add_link[OF reachable_demo_nodes has_room_demo_nodes iteration_demo_nodes
        add_link_nodes_AB])

lemma reachable_demo_store: "reachable demo_store"
  by (rule reachable.add_link[OF reachable_demo_five
        reachable_has_room[OF reachable_demo_five] iteration_demo_five add_link_five_BC])
     (simp add: demo_five_def)

subsection \<open>The state bridge on the examples\<close>

lemma context_to_atoms_skip:
  "\<forall>i\<in>set idx. \<not> fless lit_0_1f (fabs (state ! i)) \<Longrightarrow>
   fold (context_to_atoms_step state) idx a = a"
  by (induction idx arbitrary: a) (simp_all add: context_to_atoms_step_def)

lemma context_to_atoms_step_3:
  assumes "state ! 3 = Fin (1 / 2)"
  shows "context_to_atoms_step state 3 (Some new_atomspace) = Some demo_bridge"
  using assms
  by (simp add: context_to_atoms_step_def lit_0_1f_def lit_0_8f_def to_string.simps digit_char_def
      rwkv_atomspace_add_node_def is_node_type_def existing_node_def new_atomspace_def
      RWKV_INVALID_ATOM_HANDLE_def rwkv_atomspace_get_atom_def new_atom_def
      rwkv_atom_set_truth_value_def rwkv_atom_set_attention_value_def std_max_def std_min_def
      atom_pointer_write_def demo_bridge_def demo_state_node_def Let_def)

lemma upt_split_3:
  assumes "4 \<le> m"
  shows "[0..<m] = [0..<3] @ 3 # [4..<m]"
proof -
  have "[0..<m] = [0..<3] @ [3..<m]"
    using upt_add_eq_append[of 0 3 "m - 3"] assms by simp
  moreover have "[3..<m] = 3 # [4..<m]"
    using upt_conv_Cons[of 3 m] assms by simp
  ultimately show ?thesis by simp
qed

lemma iteration_demo_bridge:
  assumes "iteration_of demo_bridge iter"
  shows "iter = [(1, demo_state_node)]"
proof -
  have d: "distinct iter" using assms unfolding iteration_of_def by (simp add: distinct_map)
  have "set iter = {(1, demo_state_node)}"
  proof (intro set_eqI iffI)
    fix x assume "x \<in> set iter"
    then have "(fst x, snd x) \<in> set iter" by simp
    then have "atoms demo_bridge (fst x) = Some (snd x)" using iteration_of_mem[OF assms] by blast
    then have "fst x = 1 \<and> snd x = demo_state_node"
      by (auto simp: demo_bridge_def split: if_splits)
    then show "x \<in> {(1, demo_state_node)}" by (cases x) simp
  next
    fix x assume "x \<in> {(1 :: rwkv_atom_handle_t, demo_state_node)}"
    then have "x = (1, demo_state_node)" by simp
    moreover have "atoms demo_bridge 1 = Some demo_state_node" by (simp add: demo_bridge_def)
    ultimately show "x \<in> set iter" using iteration_of_mem[OF assms] by blast
  qed
  with d show ?thesis by (rule singleton_list)
qed

lemma iteration_new_only:
  assumes "iteration_of new_atomspace iter"
  shows "iter = []"
proof (cases iter)
  case Nil
  then show ?thesis .
next
  case (Cons x xs)
  then have "(fst x, snd x) \<in> set iter" by simp
  then have "atoms new_atomspace (fst x) = Some (snd x)" using iteration_of_mem[OF assms] by blast
  then show ?thesis by (simp add: new_atomspace_def)
qed

lemma stoul_3: "stoul (drop 6 ''state_3'') = Some 3"
  by (simp add: stoul_def isspace_c_def isdigit_c_def digit_value_def)

lemma decode_demo_bridge:
  assumes "3 < N"
  shows "fold atoms_to_context_step [(1, demo_state_node)] (replicate N (Fin 0))
         = (replicate N (Fin 0))[3 := Fin (1 / 2)]"
proof -
  have n: "name demo_state_node = ''state_3''" "type demo_state_node = RWKV_ATOM_CONCEPT_NODE"
    "strength (tv demo_state_node) = Fin (1 / 2)" "sti (av demo_state_node) = Fin (1 / 2)"
    by (simp_all add: demo_state_node_def)
  have s3: "stoul (drop 6 (name demo_state_node)) = Some 3" unfolding n(1) by (rule stoul_3)
  have p: "take 6 (name demo_state_node) = ''state_''" unfolding n(1) by simp
  show ?thesis using assms by (simp add: atoms_to_context_step_def s3 p n(2,3,4))
qed

lemma tenth_below_lit: "fle y (Fin (1 / 10)) \<Longrightarrow> fle y lit_0_1f"
  by (cases y) (simp_all add: lit_0_1f_def)

section \<open>The claims\<close>

subsection \<open>Node creation\<close>

text \<open>
  Claim C1, as the code has it. In a reachable store, two calls of
  \<open>rwkv_atomspace_add_node\<close> with the same node-kind type and the same name return the
  same handle; it is not the invalid handle and names a stored atom of that type and
  name; the second call leaves the store as the first one left it. The node count after
  the second call is the count before the first call plus one when no node of that type
  and name was stored before the first call, and equal to it when one was.
\<close>

theorem add_node_twice:
  assumes r: "reachable s" and t: "is_node_type t"
    and c1: "rwkv_atomspace_add_node (Some s) t (Some n) = (h1, Some s1)"
    and c2: "rwkv_atomspace_add_node (Some s1) t (Some n) = (h2, Some s2)"
    and it0: "iteration_of s iter0" and it2: "iteration_of s2 iter2"
  shows "h1 = h2 \<and> h1 \<noteq> RWKV_INVALID_ATOM_HANDLE \<and> s2 = s1 \<and>
         (\<exists>a. atoms s2 h1 = Some a \<and> type a = t \<and> name a = n) \<and>
         rwkv_atomspace_get_node_count iter2 (Some s2) =
           rwkv_atomspace_get_node_count iter0 (Some s) +
           (if \<exists>h a. atoms s h = Some a \<and> type a = t \<and> name a = n then 0 else 1)"
proof -
  from reachable_wf[OF r] have wf: "wf_handles s" "wf_names s" "wf_links s" by simp_all
  note iff = existing_node_Some_iff_stored[OF wf(2) t, of n]
  from c1 show ?thesis
  proof (cases rule: add_node_cases)
    case rejected
    then show ?thesis using t by simp
  next
    case (found m)
    have mn: "m = n" using found(1) by simp
    have e: "existing_node s t n = Some h1" and s1: "s1 = s"
      using found(3,4) unfolding mn by blast+
    from existing_node_SomeD[OF e] obtain a hs where a: "atoms s h1 = Some a" "type a = t"
      "name_index s n = Some hs" "h1 \<in> set hs" by blast
    from wf_names_indexD[OF wf(2) a(3,4)] a(1) have nm: "name a = n" by simp
    have nz: "h1 \<noteq> RWKV_INVALID_ATOM_HANDLE"
      using wf_handlesD[OF wf(1) a(1)] by (simp add: RWKV_INVALID_ATOM_HANDLE_def)
    have "rwkv_atomspace_add_node (Some s1) t (Some n) = (h1, Some s)"
      unfolding s1 by (rule add_node_found[OF t e])
    then have eq: "h2 = h1" "s2 = s" using c2 by simp_all
    have stored: "\<exists>h a. atoms s h = Some a \<and> type a = t \<and> name a = n" using a nm by blast
    have cnt: "rwkv_atomspace_get_node_count iter2 (Some s2) = rwkv_atomspace_get_node_count iter0 (Some s)"
      using node_count_card[OF it0] node_count_card[OF it2[unfolded eq(2)]] unfolding eq(2) by simp
    have ex: "\<exists>a. atoms s2 h1 = Some a \<and> type a = t \<and> name a = n"
      unfolding eq(2) using a(1,2) nm by blast
    show ?thesis using eq(1) eq(2) s1 nz ex cnt stored by simp
  next
    case (new m)
    have mn: "m = n" using new(1) by simp
    have e: "existing_node s t n = None" and h1: "h1 = next_handle s"
      using new(3,4) unfolding mn by blast+
    let ?a = "(new_atom (next_handle s) t)\<lparr>name := n\<rparr>"
    have s1: "s1 = s\<lparr>next_handle := next_handle s + 1,
              atoms := (atoms s)(next_handle s \<mapsto> ?a),
              name_index := (name_index s)(n \<mapsto>
                 (case name_index s n of None \<Rightarrow> [] | Some hs \<Rightarrow> hs) @ [next_handle s])\<rparr>"
      using new(5) unfolding mn .
    note fr = wf_handles_fresh[OF wf(1)]
    have e1: "existing_node s1 t n = Some h1"
      unfolding s1 h1 by (rule existing_node_after_new[OF wf(2) fr e])
    have "rwkv_atomspace_add_node (Some s1) t (Some n) = (h1, Some s1)"
      by (rule add_node_found[OF t e1])
    then have eq: "h2 = h1" "s2 = s1" using c2 by simp_all
    have nz: "h1 \<noteq> RWKV_INVALID_ATOM_HANDLE"
      using wf_handles_next_nonzero[OF wf(1)] h1 by (simp add: RWKV_INVALID_ATOM_HANDLE_def)
    have at: "atoms s1 h1 = Some ?a" unfolding s1 h1 by simp
    have fld: "type ?a = t" "name ?a = n" by (simp_all add: new_atom_def)
    have nstored: "\<not> (\<exists>h a. atoms s h = Some a \<and> type a = t \<and> name a = n)"
      using iff e by simp
    let ?N = "{h. \<exists>a. atoms s h = Some a \<and> is_node_type (type a)}"
    have "finite (dom (atoms s))" using wf(1) unfolding wf_handles_def by blast
    then have fin: "finite ?N" by (rule rev_finite_subset) auto
    have at1: "atoms s1 h = (if h = h1 then Some ?a else atoms s h)" for h
      unfolding s1 h1 by simp
    have sets: "{h. \<exists>a. atoms s1 h = Some a \<and> is_node_type (type a)} = insert h1 ?N"
      using t fld(1) by (auto simp: at1)
    have notin: "h1 \<notin> ?N"
      using fr h1 by simp
    have "card (insert h1 ?N) = card ?N + 1" using fin notin by simp
    then have cnt: "rwkv_atomspace_get_node_count iter2 (Some s2) = rwkv_atomspace_get_node_count iter0 (Some s) + 1"
      using node_count_card[OF it0] node_count_card[OF it2[unfolded eq(2)]] sets unfolding eq(2) by simp
    have ex: "\<exists>a. atoms s2 h1 = Some a \<and> type a = t \<and> name a = n"
      unfolding eq(2) at using fld by blast
    show ?thesis using eq(1) eq(2) nz ex cnt nstored by simp
  qed
qed

text \<open>The theorem at the fresh store and the Concept node A: the count goes from 0 to 1.\<close>

theorem add_node_twice_witness:
  "reachable new_atomspace \<and> is_node_type RWKV_ATOM_CONCEPT_NODE \<and>
   rwkv_atomspace_add_node (Some new_atomspace) RWKV_ATOM_CONCEPT_NODE (Some ''A'')
     = (1, Some demo_one) \<and>
   rwkv_atomspace_add_node (Some demo_one) RWKV_ATOM_CONCEPT_NODE (Some ''A'')
     = (1, Some demo_one) \<and>
   iteration_of new_atomspace [] \<and> iteration_of demo_one [(1, demo_A)] \<and>
   rwkv_atomspace_get_node_count [(1, demo_A)] (Some demo_one) =
     rwkv_atomspace_get_node_count [] (Some new_atomspace) + 1"
proof -
  have t: "is_node_type RWKV_ATOM_CONCEPT_NODE" by (simp add: is_node_type_def)
  have none: "\<not> (\<exists>h a. atoms new_atomspace h = Some a \<and> type a = RWKV_ATOM_CONCEPT_NODE \<and>
                 name a = ''A'')"
    by (simp add: new_atomspace_def)
  from add_node_twice[OF reachable_new t add_node_new_A add_node_one_A iteration_new
      iteration_demo_one]
  show ?thesis
    using reachable_new t add_node_new_A add_node_one_A iteration_new iteration_demo_one none
    by simp
qed

text \<open>
  Claim C1 as it is written fails where the node is already stored: in the example
  store, which holds the Concept node A, two more calls for (Concept, A) return its
  handle and the node count stays 4.
\<close>

theorem add_node_count_counterexample:
  "reachable demo_store \<and>
   rwkv_atomspace_add_node (Some demo_store) RWKV_ATOM_CONCEPT_NODE (Some ''A'')
     = (1, Some demo_store) \<and>
   rwkv_atomspace_get_node_count demo_iter (Some demo_store) = 4 \<and>
   rwkv_atomspace_get_node_count demo_iter
      (snd (rwkv_atomspace_add_node
              (snd (rwkv_atomspace_add_node (Some demo_store) RWKV_ATOM_CONCEPT_NODE (Some ''A'')))
              RWKV_ATOM_CONCEPT_NODE (Some ''A'')))
     \<noteq> rwkv_atomspace_get_node_count demo_iter (Some demo_store) + 1"
proof -
  have e: "rwkv_atomspace_add_node (Some demo_store) RWKV_ATOM_CONCEPT_NODE (Some ''A'')
           = (1, Some demo_store)"
    by (simp add: rwkv_atomspace_add_node_def is_node_type_def existing_node_def
        demo_store_def demo_defs new_atom_def)
  have c: "rwkv_atomspace_get_node_count demo_iter (Some demo_store) = 4"
    by (simp add: rwkv_atomspace_get_node_count_def demo_iter_def demo_defs new_atom_def
        is_node_type_def)
  show ?thesis using reachable_demo_store by (simp add: e c)
qed

subsection \<open>Links to missing atoms\<close>

text \<open>
  Claim C3. When one handle of the outgoing sequence is not stored,
  \<open>rwkv_atomspace_add_link\<close> returns the invalid handle and the store is the one it was
  given, so \<open>rwkv_atomspace_get_size\<close> is the same before and after. This holds for
  every store, type and iteration order.
\<close>

theorem add_link_rejects_missing:
  "h \<in> set out \<Longrightarrow> atoms s h = None \<Longrightarrow>
   rwkv_atomspace_add_link iter (Some s) t (Some out) = (RWKV_INVALID_ATOM_HANDLE, Some s) \<and>
   rwkv_atomspace_get_size (snd (rwkv_atomspace_add_link iter (Some s) t (Some out))) =
     rwkv_atomspace_get_size (Some s)"
  by (auto simp: rwkv_atomspace_add_link_def list_all_iff)

theorem add_link_rejects_missing_witness:
  "(9 :: rwkv_atom_handle_t) \<in> set [1, 9] \<and> atoms demo_store 9 = None \<and>
   rwkv_atomspace_add_link demo_iter (Some demo_store) RWKV_ATOM_IMPLICATION_LINK (Some [1, 9])
     = (RWKV_INVALID_ATOM_HANDLE, Some demo_store) \<and>
   rwkv_atomspace_get_size
     (snd (rwkv_atomspace_add_link demo_iter (Some demo_store) RWKV_ATOM_IMPLICATION_LINK
             (Some [1, 9]))) = rwkv_atomspace_get_size (Some demo_store)"
proof -
  have m: "(9 :: rwkv_atom_handle_t) \<in> set [1, 9]" by simp
  have n: "atoms demo_store 9 = None" by (simp add: demo_store_def)
  from add_link_rejects_missing[OF m n, of demo_iter RWKV_ATOM_IMPLICATION_LINK]
  show ?thesis using m n by simp
qed

subsection \<open>Annotations\<close>

lemma clamp_unit:
  "fle (Fin 0) (std_max (Fin 0) (std_min (Fin 1) x)) \<and>
   fle (std_max (Fin 0) (std_min (Fin 1) x)) (Fin 1)"
  by (cases x) (auto simp: std_max_def std_min_def)

lemma std_clamp_is_clamp01:
  "std_max (Fin 0) (std_min (Fin 1) x) = clamp01 x"
  by (cases x) (auto simp: std_max_def std_min_def)

lemma set_truth_value_eq:
  "rwkv_atom_set_truth_value (Some a) (Some v) =
     (True, Some (a\<lparr>tv := \<lparr>strength = std_max (Fin 0) (std_min (Fin 1) (strength v)),
                          confidence = std_max (Fin 0) (std_min (Fin 1) (confidence v))\<rparr>\<rparr>))"
  by (simp add: rwkv_atom_set_truth_value_def Let_def)

text \<open>
  Claim C6. For every atom and every truth value, NaN and the infinities included,
  \<open>rwkv_atom_set_truth_value\<close> succeeds and changes nothing of the atom but its truth
  value, which becomes the given one with strength and confidence each clamped: a
  finite value \<open>r\<close> is stored as \<open>max 0 (min 1 r)\<close>, so a value of the range is stored as
  it is, a value below 0 as 0 and a value above 1 as 1; minus infinity is stored as 0,
  plus infinity and NaN as 1. What \<open>rwkv_atom_get_truth_value\<close> then reads is that
  clamped pair. Both stored values lie between 0 and 1. Strength 1.5 with confidence
  -0.2 is stored, and read back, as (1, 0), for the real number -0.2 as for the float
  \<open>-0.2f\<close>, which is \<open>-13421773 / 2^26\<close>; (0.25, 0.75) is stored as it is.
  \<open>rwkv_atom_set_attention_value\<close> stores the value it is given unchanged, whatever it
  is: (1.5, -3, NaN) stays (1.5, -3, NaN).
\<close>

theorem set_truth_value_clamps:
  "rwkv_atom_set_truth_value (Some a) (Some v) =
     (True, Some (a\<lparr>tv := \<lparr>strength = clamp01 (strength v),
                          confidence = clamp01 (confidence v)\<rparr>\<rparr>)) \<and>
   rwkv_atom_get_truth_value (snd (rwkv_atom_set_truth_value (Some a) (Some v))) True =
     (True, Some \<lparr>strength = clamp01 (strength v), confidence = clamp01 (confidence v)\<rparr>) \<and>
   clamp01 (Fin r) = Fin (max 0 (min 1 r)) \<and>
   clamp01 NInf = Fin 0 \<and> clamp01 PInf = Fin 1 \<and> clamp01 NaN = Fin 1 \<and>
   fle (Fin 0) (clamp01 x) \<and> fle (clamp01 x) (Fin 1) \<and>
   (\<exists>a'. rwkv_atom_set_truth_value (Some a) (Some v) = (True, Some a') \<and>
         fle (Fin 0) (strength (tv a')) \<and> fle (strength (tv a')) (Fin 1) \<and>
         fle (Fin 0) (confidence (tv a')) \<and> fle (confidence (tv a')) (Fin 1)) \<and>
   rwkv_atom_set_truth_value (Some a)
       (Some \<lparr>strength = Fin (3 / 2), confidence = Fin (- (1 / 5))\<rparr>) =
     (True, Some (a\<lparr>tv := \<lparr>strength = Fin 1, confidence = Fin 0\<rparr>\<rparr>)) \<and>
   rwkv_atom_set_truth_value (Some a)
       (Some \<lparr>strength = Fin (3 / 2), confidence = Fin (- (13421773 / 67108864))\<rparr>) =
     (True, Some (a\<lparr>tv := \<lparr>strength = Fin 1, confidence = Fin 0\<rparr>\<rparr>)) \<and>
   rwkv_atom_set_truth_value (Some a)
       (Some \<lparr>strength = Fin (1 / 4), confidence = Fin (3 / 4)\<rparr>) =
     (True, Some (a\<lparr>tv := \<lparr>strength = Fin (1 / 4), confidence = Fin (3 / 4)\<rparr>\<rparr>)) \<and>
   rwkv_atom_get_truth_value
       (snd (rwkv_atom_set_truth_value (Some a)
               (Some \<lparr>strength = Fin (3 / 2), confidence = Fin (- (1 / 5))\<rparr>))) True =
     (True, Some \<lparr>strength = Fin 1, confidence = Fin 0\<rparr>) \<and>
   rwkv_atom_set_attention_value (Some a) (Some w) = (True, Some (a\<lparr>av := w\<rparr>)) \<and>
   rwkv_atom_get_attention_value
       (snd (rwkv_atom_set_attention_value (Some a) (Some w))) True = (True, Some w) \<and>
   rwkv_atom_set_attention_value (Some a)
       (Some \<lparr>sti = Fin (3 / 2), lti = Fin (- 3), vlti = NaN\<rparr>) =
     (True, Some (a\<lparr>av := \<lparr>sti = Fin (3 / 2), lti = Fin (- 3), vlti = NaN\<rparr>\<rparr>))"
proof (intro conjI)
  have eq: "rwkv_atom_set_truth_value (Some a) (Some u) =
     (True, Some (a\<lparr>tv := \<lparr>strength = clamp01 (strength u),
                          confidence = clamp01 (confidence u)\<rparr>\<rparr>))" for u
    unfolding set_truth_value_eq std_clamp_is_clamp01 ..
  have rng: "fle (Fin 0) (clamp01 y) \<and> fle (clamp01 y) (Fin 1)" for y
    using clamp_unit[of y] unfolding std_clamp_is_clamp01 .
  show "rwkv_atom_set_truth_value (Some a) (Some v) =
     (True, Some (a\<lparr>tv := \<lparr>strength = clamp01 (strength v),
                          confidence = clamp01 (confidence v)\<rparr>\<rparr>))"
    by (rule eq)
  show "rwkv_atom_get_truth_value (snd (rwkv_atom_set_truth_value (Some a) (Some v))) True =
     (True, Some \<lparr>strength = clamp01 (strength v), confidence = clamp01 (confidence v)\<rparr>)"
    by (simp add: eq rwkv_atom_get_truth_value_def)
  show "clamp01 (Fin r) = Fin (max 0 (min 1 r))" by simp
  show "clamp01 NInf = Fin 0" "clamp01 PInf = Fin 1" "clamp01 NaN = Fin 1" by simp_all
  show "fle (Fin 0) (clamp01 x)" "fle (clamp01 x) (Fin 1)" using rng by blast+
  show "\<exists>a'. rwkv_atom_set_truth_value (Some a) (Some v) = (True, Some a') \<and>
         fle (Fin 0) (strength (tv a')) \<and> fle (strength (tv a')) (Fin 1) \<and>
         fle (Fin 0) (confidence (tv a')) \<and> fle (confidence (tv a')) (Fin 1)"
    by (simp add: eq rng)
  show "rwkv_atom_set_truth_value (Some a)
       (Some \<lparr>strength = Fin (3 / 2), confidence = Fin (- (1 / 5))\<rparr>) =
     (True, Some (a\<lparr>tv := \<lparr>strength = Fin 1, confidence = Fin 0\<rparr>\<rparr>))"
    by (simp add: eq)
  show "rwkv_atom_set_truth_value (Some a)
       (Some \<lparr>strength = Fin (3 / 2), confidence = Fin (- (13421773 / 67108864))\<rparr>) =
     (True, Some (a\<lparr>tv := \<lparr>strength = Fin 1, confidence = Fin 0\<rparr>\<rparr>))"
    by (simp add: eq)
  show "rwkv_atom_set_truth_value (Some a)
       (Some \<lparr>strength = Fin (1 / 4), confidence = Fin (3 / 4)\<rparr>) =
     (True, Some (a\<lparr>tv := \<lparr>strength = Fin (1 / 4), confidence = Fin (3 / 4)\<rparr>\<rparr>))"
    by (simp add: eq)
  show "rwkv_atom_get_truth_value
       (snd (rwkv_atom_set_truth_value (Some a)
               (Some \<lparr>strength = Fin (3 / 2), confidence = Fin (- (1 / 5))\<rparr>))) True =
     (True, Some \<lparr>strength = Fin 1, confidence = Fin 0\<rparr>)"
    by (simp add: eq rwkv_atom_get_truth_value_def)
  show "rwkv_atom_set_attention_value (Some a) (Some w) = (True, Some (a\<lparr>av := w\<rparr>))"
    by (simp add: rwkv_atom_set_attention_value_def)
  show "rwkv_atom_get_attention_value
       (snd (rwkv_atom_set_attention_value (Some a) (Some w))) True = (True, Some w)"
    by (simp add: rwkv_atom_set_attention_value_def rwkv_atom_get_attention_value_def)
  show "rwkv_atom_set_attention_value (Some a)
       (Some \<lparr>sti = Fin (3 / 2), lti = Fin (- 3), vlti = NaN\<rparr>) =
     (True, Some (a\<lparr>av := \<lparr>sti = Fin (3 / 2), lti = Fin (- 3), vlti = NaN\<rparr>\<rparr>))"
    by (simp add: rwkv_atom_set_attention_value_def)
qed

subsection \<open>Statistics\<close>

text \<open>
  Claim C10. \<open>rwkv_atomspace_get_size\<close> is the sum of
  \<open>rwkv_atomspace_get_node_count\<close> and \<open>rwkv_atomspace_get_link_count\<close>, whatever order
  the two counting loops meet the atoms in, and a type is a link-kind exactly when it is
  not a node-kind. This holds for every store, reachable or not.
\<close>

theorem size_is_nodes_plus_links:
  "iteration_of s iter \<Longrightarrow> iteration_of s iter' \<Longrightarrow>
   rwkv_atomspace_get_size (Some s) =
     rwkv_atomspace_get_node_count iter (Some s) + rwkv_atomspace_get_link_count iter' (Some s) \<and>
   (\<forall>t. is_link_type t \<longleftrightarrow> \<not> is_node_type t)"
proof -
  assume i: "iteration_of s iter" and i': "iteration_of s iter'"
  let ?n = "\<lambda>x :: rwkv_atom_handle_t \<times> rwkv_atom. is_node_type (type (snd x))"
  have l: "rwkv_atomspace_get_link_count iter' (Some s) = rwkv_atomspace_get_link_count iter (Some s)"
    using iteration_filter_length[OF i, of "\<lambda>h a. is_link_type (type a)"]
      iteration_filter_length[OF i', of "\<lambda>h a. is_link_type (type a)"]
    by (simp add: rwkv_atomspace_get_link_count_def count_loop_filter)
  have "length (filter ?n iter) + length (filter (\<lambda>x. \<not> ?n x) iter) = length iter"
    by (rule sum_length_filter_compl)
  then have "rwkv_atomspace_get_size (Some s) =
     rwkv_atomspace_get_node_count iter (Some s) + rwkv_atomspace_get_link_count iter (Some s)"
    by (simp add: rwkv_atomspace_get_size_def rwkv_atomspace_get_node_count_def
        rwkv_atomspace_get_link_count_def count_loop_filter iteration_size[OF i]
        is_link_type_def)
  then show ?thesis using l by (simp add: is_link_type_def)
qed

theorem size_is_nodes_plus_links_witness:
  "iteration_of demo_store demo_iter \<and>
   rwkv_atomspace_get_size (Some demo_store) = 6 \<and>
   rwkv_atomspace_get_node_count demo_iter (Some demo_store) = 4 \<and>
   rwkv_atomspace_get_link_count demo_iter (Some demo_store) = 2"
proof -
  have n: "rwkv_atomspace_get_node_count demo_iter (Some demo_store) = 4"
    by (simp add: rwkv_atomspace_get_node_count_def demo_iter_def demo_defs new_atom_def
        is_node_type_def)
  have l: "rwkv_atomspace_get_link_count demo_iter (Some demo_store) = 2"
    by (simp add: rwkv_atomspace_get_link_count_def demo_iter_def demo_defs new_atom_def
        is_node_type_def is_link_type_def)
  from size_is_nodes_plus_links[OF iteration_demo iteration_demo]
  show ?thesis using iteration_demo n l by simp
qed

subsection \<open>Link creation\<close>



subsection \<open>Handles\<close>

text \<open>
  Claim C9. In a reachable store every atom sits at the handle it carries, the handle is
  not zero, and no two stored atoms carry the same handle. A call of
  \<open>rwkv_atomspace_add_node\<close> or \<open>rwkv_atomspace_add_link\<close> that changes the store
  returns a handle that is not zero, was not stored before, is stored afterwards and is
  greater than every handle stored before. Atoms are never removed, so the handles
  stored before are the handles issued before.
\<close>

theorem handles_unique_and_increasing:
  assumes r: "reachable s"
  shows "(\<forall>h a. atoms s h = Some a \<longrightarrow> handle a = h \<and> h \<noteq> RWKV_INVALID_ATOM_HANDLE) \<and>
         (\<forall>h a h' a'. atoms s h = Some a \<and> atoms s h' = Some a' \<and> handle a = handle a' \<longrightarrow> h = h') \<and>
         (\<forall>t np h s'. rwkv_atomspace_add_node (Some s) t np = (h, Some s') \<and> s' \<noteq> s \<longrightarrow>
            h \<noteq> RWKV_INVALID_ATOM_HANDLE \<and> atoms s h = None \<and> atoms s' h \<noteq> None \<and>
            (\<forall>k. atoms s k \<noteq> None \<longrightarrow> k < h)) \<and>
         (\<forall>iter t op h s'. rwkv_atomspace_add_link iter (Some s) t op = (h, Some s') \<and> s' \<noteq> s \<longrightarrow>
            h \<noteq> RWKV_INVALID_ATOM_HANDLE \<and> atoms s h = None \<and> atoms s' h \<noteq> None \<and>
            (\<forall>k. atoms s k \<noteq> None \<longrightarrow> k < h))"
proof -
  from reachable_wf[OF r] have wh: "wf_handles s" by simp
  have 1: "handle a = h \<and> h \<noteq> RWKV_INVALID_ATOM_HANDLE" if "atoms s h = Some a" for h a
    using wf_handlesD[OF wh that] by (simp add: RWKV_INVALID_ATOM_HANDLE_def)
  have 2: "h = h'" if "atoms s h = Some a \<and> atoms s h' = Some a' \<and> handle a = handle a'"
    for h a h' a'
    using that 1[of h a] 1[of h' a'] by simp
  have nxt: "next_handle s \<noteq> RWKV_INVALID_ATOM_HANDLE \<and> atoms s (next_handle s) = None \<and>
            (\<forall>k. atoms s k \<noteq> None \<longrightarrow> k < next_handle s)"
  proof (intro conjI allI impI)
    show "next_handle s \<noteq> RWKV_INVALID_ATOM_HANDLE"
      using wf_handles_next_nonzero[OF wh] by (simp add: RWKV_INVALID_ATOM_HANDLE_def)
    show "atoms s (next_handle s) = None" by (rule wf_handles_fresh[OF wh])
    fix k assume "atoms s k \<noteq> None"
    then obtain b where "atoms s k = Some b" by auto
    then show "k < next_handle s" using wf_handlesD[OF wh] by blast
  qed
  have 3: "h \<noteq> RWKV_INVALID_ATOM_HANDLE \<and> atoms s h = None \<and> atoms s' h \<noteq> None \<and>
            (\<forall>k. atoms s k \<noteq> None \<longrightarrow> k < h)"
    if "rwkv_atomspace_add_node (Some s) t np = (h, Some s') \<and> s' \<noteq> s" for t np h s'
  proof -
    from that have hh: "h = next_handle s" and st: "atoms s' h \<noteq> None"
      using add_node_changed by blast+
    from nxt st[unfolded hh] show ?thesis unfolding hh by (intro conjI) blast+
  qed
  have 4: "h \<noteq> RWKV_INVALID_ATOM_HANDLE \<and> atoms s h = None \<and> atoms s' h \<noteq> None \<and>
            (\<forall>k. atoms s k \<noteq> None \<longrightarrow> k < h)"
    if "rwkv_atomspace_add_link iter (Some s) t op = (h, Some s') \<and> s' \<noteq> s" for iter t op h s'
  proof -
    from that have hh: "h = next_handle s" and st: "atoms s' h \<noteq> None"
      using add_link_changed by blast+
    from nxt st[unfolded hh] show ?thesis unfolding hh by (intro conjI) blast+
  qed
  show ?thesis
  proof (intro conjI allI impI)
    fix h a assume "atoms s h = Some a"
    then show "handle a = h" "h \<noteq> RWKV_INVALID_ATOM_HANDLE" using 1 by blast+
  next
    fix h a h' a'
    assume "atoms s h = Some a \<and> atoms s h' = Some a' \<and> handle a = handle a'"
    then show "h = h'" by (rule 2)
  next
    fix t np h s' k
    assume a: "rwkv_atomspace_add_node (Some s) t np = (h, Some s') \<and> s' \<noteq> s"
    show "h \<noteq> RWKV_INVALID_ATOM_HANDLE" "atoms s h = None" using 3[OF a] by blast+
    show "atoms s' h \<noteq> None" using 3[OF a] by blast
    assume "atoms s k \<noteq> None"
    then show "k < h" using 3[OF a] by blast
  next
    fix iter t op h s' k
    assume a: "rwkv_atomspace_add_link iter (Some s) t op = (h, Some s') \<and> s' \<noteq> s"
    show "h \<noteq> RWKV_INVALID_ATOM_HANDLE" "atoms s h = None" using 4[OF a] by blast+
    show "atoms s' h \<noteq> None" using 4[OF a] by blast
    assume "atoms s k \<noteq> None"
    then show "k < h" using 4[OF a] by blast
  qed
qed

text \<open>
  The theorem on the store that holds the node A at handle 1: the next node and the next
  link both get handle 2.
\<close>

theorem handles_unique_and_increasing_witness:
  "reachable demo_one \<and> atoms demo_one 1 = Some demo_A \<and> handle demo_A = 1 \<and>
   (1 :: rwkv_atom_handle_t) \<noteq> RWKV_INVALID_ATOM_HANDLE \<and>
   rwkv_atomspace_add_node (Some demo_one) RWKV_ATOM_CONCEPT_NODE (Some ''B'')
     = (2, Some demo_two) \<and> demo_two \<noteq> demo_one \<and>
   rwkv_atomspace_add_link [(1, demo_A)] (Some demo_one) RWKV_ATOM_IMPLICATION_LINK
     (Some [1, 1]) = (2, Some demo_loop) \<and> demo_loop \<noteq> demo_one \<and>
   atoms demo_one 2 = None \<and> atoms demo_two 2 \<noteq> None \<and> atoms demo_loop 2 \<noteq> None \<and>
   (1 :: rwkv_atom_handle_t) < 2"
proof -
  have a: "atoms demo_one 1 = Some demo_A" by (simp add: demo_one_def)
  have n: "atoms demo_one 1 \<noteq> None" using a by simp
  have "next_handle demo_two \<noteq> next_handle demo_one" "next_handle demo_loop \<noteq> next_handle demo_one"
    by (simp_all add: demo_two_def demo_one_def demo_loop_def)
  then have d: "demo_two \<noteq> demo_one" "demo_loop \<noteq> demo_one" by auto
  note T = handles_unique_and_increasing[OF reachable_demo_one]
  from T[THEN conjunct1, rule_format, OF a]
  have 1: "handle demo_A = 1" "(1 :: rwkv_atom_handle_t) \<noteq> RWKV_INVALID_ATOM_HANDLE" by blast+
  have pn: "rwkv_atomspace_add_node (Some demo_one) RWKV_ATOM_CONCEPT_NODE (Some ''B'')
     = (2, Some demo_two) \<and> demo_two \<noteq> demo_one"
    using add_node_one_B d(1) by simp
  from T[THEN conjunct2, THEN conjunct2, THEN conjunct1, rule_format, OF pn]
  have 2: "atoms demo_one 2 = None" "atoms demo_two 2 \<noteq> None"
    "\<And>k. atoms demo_one k \<noteq> None \<Longrightarrow> k < 2" by blast+
  have pl: "rwkv_atomspace_add_link [(1, demo_A)] (Some demo_one) RWKV_ATOM_IMPLICATION_LINK
     (Some [1, 1]) = (2, Some demo_loop) \<and> demo_loop \<noteq> demo_one"
    using add_link_one_AA d(2) by simp
  from T[THEN conjunct2, THEN conjunct2, THEN conjunct2, rule_format, OF pl]
  have 3: "atoms demo_loop 2 \<noteq> None" by blast
  show ?thesis
    by (intro conjI reachable_demo_one a 1 add_node_one_B d add_link_one_AA 2(1,2) 3 2(3)[OF n])
qed

subsection \<open>Empty names\<close>

text \<open>
  Claim C7, as the code has it. \<open>rwkv_atomspace_add_node\<close> tests the name pointer, not
  the length of the name. In a reachable store, for a node-kind type, the call with the
  empty name returns a handle that is not the invalid one and names a stored node of that
  type with the empty name; the size grows by one when no such node was stored and stays
  when one was. The call with a null name pointer returns the invalid handle and leaves
  the store as it was.
\<close>

theorem add_node_empty_name:
  assumes r: "reachable s" and t: "is_node_type t"
  shows "(\<exists>h s'. rwkv_atomspace_add_node (Some s) t (Some []) = (h, Some s') \<and>
            h \<noteq> RWKV_INVALID_ATOM_HANDLE \<and>
            (\<exists>a. atoms s' h = Some a \<and> type a = t \<and> name a = []) \<and>
            rwkv_atomspace_get_size (Some s') = rwkv_atomspace_get_size (Some s) +
              (if \<exists>k a. atoms s k = Some a \<and> type a = t \<and> name a = [] then 0 else 1)) \<and>
         rwkv_atomspace_add_node (Some s) t None = (RWKV_INVALID_ATOM_HANDLE, Some s)"
proof
  from reachable_wf[OF r] have wf: "wf_handles s" "wf_names s" by simp_all
  obtain h so where c0: "rwkv_atomspace_add_node (Some s) t (Some []) = (h, so)"
    by (cases "rwkv_atomspace_add_node (Some s) t (Some [])") blast
  have "so \<noteq> None"
    using c0 t by (auto simp: rwkv_atomspace_add_node_def Let_def split: option.splits)
  then obtain s' where c: "rwkv_atomspace_add_node (Some s) t (Some []) = (h, Some s')"
    using c0 by auto
  note res = add_node_result[OF wf t c]
  note iff = existing_node_Some_iff_stored[OF wf(2) t, of "[]"]
  have fin: "finite (dom (atoms s))" using wf(1) unfolding wf_handles_def by blast
  have sz: "rwkv_atomspace_get_size (Some s') = rwkv_atomspace_get_size (Some s) +
              (if \<exists>k a. atoms s k = Some a \<and> type a = t \<and> name a = [] then 0 else 1)"
    using c
  proof (cases rule: add_node_cases)
    case rejected
    then show ?thesis using t by simp
  next
    case (found m)
    have mn: "m = []" using found(1) by simp
    have "\<exists>k a. atoms s k = Some a \<and> type a = t \<and> name a = []"
      using iff found(3) unfolding mn by blast
    then show ?thesis using found(4) by simp
  next
    case (new m)
    have mn: "m = []" using new(1) by simp
    have ns: "\<not> (\<exists>k a. atoms s k = Some a \<and> type a = t \<and> name a = [])"
      using iff new(3) unfolding mn by simp
    have "dom (atoms s') = insert h (dom (atoms s))" "atoms s h = None"
      using res(3) new(4) wf_handles_fresh[OF wf(1)] by auto
    then have "card (dom (atoms s')) = card (dom (atoms s)) + 1"
      using fin by (simp add: domIff)
    then show ?thesis using ns by (simp add: rwkv_atomspace_get_size_def)
  qed
  show "\<exists>h s'. rwkv_atomspace_add_node (Some s) t (Some []) = (h, Some s') \<and>
            h \<noteq> RWKV_INVALID_ATOM_HANDLE \<and>
            (\<exists>a. atoms s' h = Some a \<and> type a = t \<and> name a = []) \<and>
            rwkv_atomspace_get_size (Some s') = rwkv_atomspace_get_size (Some s) +
              (if \<exists>k a. atoms s k = Some a \<and> type a = t \<and> name a = [] then 0 else 1)"
    using c res(1,2) sz by (auto simp: RWKV_INVALID_ATOM_HANDLE_def)
  show "rwkv_atomspace_add_node (Some s) t None = (RWKV_INVALID_ATOM_HANDLE, Some s)"
    by (rule add_node_rejects(2))
qed

text \<open>The theorem on the fresh store: the node with the empty name gets handle 1.\<close>

theorem add_node_empty_name_witness:
  "reachable new_atomspace \<and> is_node_type RWKV_ATOM_CONCEPT_NODE \<and>
   rwkv_atomspace_add_node (Some new_atomspace) RWKV_ATOM_CONCEPT_NODE (Some [])
     = (1, Some demo_unnamed) \<and>
   rwkv_atomspace_get_size (Some demo_unnamed) = rwkv_atomspace_get_size (Some new_atomspace) + 1 \<and>
   rwkv_atomspace_add_node (Some new_atomspace) RWKV_ATOM_CONCEPT_NODE None
     = (RWKV_INVALID_ATOM_HANDLE, Some new_atomspace)"
proof -
  have e: "rwkv_atomspace_add_node (Some new_atomspace) RWKV_ATOM_CONCEPT_NODE (Some [])
     = (1, Some demo_unnamed)"
    by (simp add: rwkv_atomspace_add_node_def is_node_type_def existing_node_def
        new_atomspace_def demo_unnamed_def new_atom_def)
  have none: "\<not> (\<exists>k a. atoms new_atomspace k = Some a \<and> type a = RWKV_ATOM_CONCEPT_NODE \<and>
                 name a = [])"
    by (simp add: new_atomspace_def)
  note T = add_node_empty_name[OF reachable_new demo_types(1)]
  from T[THEN conjunct1] obtain h s' where
    c: "rwkv_atomspace_add_node (Some new_atomspace) RWKV_ATOM_CONCEPT_NODE (Some []) = (h, Some s')"
    and sz: "rwkv_atomspace_get_size (Some s') = rwkv_atomspace_get_size (Some new_atomspace) +
       (if \<exists>k a. atoms new_atomspace k = Some a \<and> type a = RWKV_ATOM_CONCEPT_NODE \<and>
                 name a = [] then 0 else 1)"
    by blast
  have "s' = demo_unnamed" using c e by simp
  then have 1: "rwkv_atomspace_get_size (Some demo_unnamed)
                = rwkv_atomspace_get_size (Some new_atomspace) + 1"
    using sz none by simp
  show ?thesis
    by (intro conjI reachable_new demo_types(1) e 1 T[THEN conjunct2])
qed

text \<open>
  Claim C7 as it is written fails on the fresh store: the call with the empty name
  returns handle 1, not the invalid handle, and the size goes from 0 to 1.
\<close>

theorem add_node_empty_name_counterexample:
  "is_node_type RWKV_ATOM_CONCEPT_NODE \<and>
   fst (rwkv_atomspace_add_node (Some new_atomspace) RWKV_ATOM_CONCEPT_NODE (Some [])) = 1 \<and>
   fst (rwkv_atomspace_add_node (Some new_atomspace) RWKV_ATOM_CONCEPT_NODE (Some []))
     \<noteq> RWKV_INVALID_ATOM_HANDLE \<and>
   rwkv_atomspace_get_size (Some new_atomspace) = 0 \<and>
   rwkv_atomspace_get_size
     (snd (rwkv_atomspace_add_node (Some new_atomspace) RWKV_ATOM_CONCEPT_NODE (Some []))) = 1"
proof -
  have e: "rwkv_atomspace_add_node (Some new_atomspace) RWKV_ATOM_CONCEPT_NODE (Some [])
     = (1, Some demo_unnamed)"
    by (simp add: rwkv_atomspace_add_node_def is_node_type_def existing_node_def
        new_atomspace_def demo_unnamed_def new_atom_def)
  have s0: "rwkv_atomspace_get_size (Some new_atomspace) = 0"
    by (simp add: rwkv_atomspace_get_size_def new_atomspace_def)
  have s1: "rwkv_atomspace_get_size (Some demo_unnamed) = 1"
    by (simp add: rwkv_atomspace_get_size_def demo_unnamed_def)
  show ?thesis
    using demo_types(1) s0 s1 by (simp add: e RWKV_INVALID_ATOM_HANDLE_def)
qed

subsection \<open>Pattern matching\<close>

text \<open>
  Claim C5. In a reachable store, when an atom is stored at the pattern handle,
  \<open>rwkv_atomspace_pattern_match\<close> writes the first \<open>max_results\<close> handles, in iteration
  order, of the stored atoms that have the type of the pattern atom and another handle.
  The test reads nothing but the type and the handle. The result has no duplicates, all
  its members are such handles, their number is the smaller of \<open>max_results\<close> and the
  number of such atoms, and when \<open>max_results\<close> is at least that number the result holds
  every one of them. When no atom is stored at the pattern handle the result is empty.
\<close>

theorem pattern_match_by_type:
  assumes r: "reachable s" and it: "iteration_of s iter"
  shows "(atoms s p = Some pa \<longrightarrow>
            rwkv_atomspace_pattern_match iter (Some s) p True m =
              take m (map fst (filter (\<lambda>x. type (snd x) = type pa \<and> fst x \<noteq> p) iter)) \<and>
            distinct (rwkv_atomspace_pattern_match iter (Some s) p True m) \<and>
            set (rwkv_atomspace_pattern_match iter (Some s) p True m)
              \<subseteq> {h. \<exists>a. atoms s h = Some a \<and> type a = type pa \<and> h \<noteq> p} \<and>
            length (rwkv_atomspace_pattern_match iter (Some s) p True m) =
              min m (card {h. \<exists>a. atoms s h = Some a \<and> type a = type pa \<and> h \<noteq> p}) \<and>
            (card {h. \<exists>a. atoms s h = Some a \<and> type a = type pa \<and> h \<noteq> p} \<le> m \<longrightarrow>
               set (rwkv_atomspace_pattern_match iter (Some s) p True m)
                 = {h. \<exists>a. atoms s h = Some a \<and> type a = type pa \<and> h \<noteq> p})) \<and>
         (atoms s p = None \<longrightarrow> rwkv_atomspace_pattern_match iter (Some s) p True m = [])"
proof (intro conjI impI)
  show "rwkv_atomspace_pattern_match iter (Some s) p True m = []" if "atoms s p = None"
    using that by (simp add: rwkv_atomspace_pattern_match_def)
next
  assume pa: "atoms s p = Some pa"
  from reachable_wf[OF r] have wh: "wf_handles s" by simp
  have nz: "p \<noteq> RWKV_INVALID_ATOM_HANDLE"
    using wf_handlesD[OF wh pa] by (simp add: RWKV_INVALID_ATOM_HANDLE_def)
  let ?F = "map fst (filter (\<lambda>x. type (snd x) = type pa \<and> fst x \<noteq> p) iter)"
  let ?S = "{h. \<exists>a. atoms s h = Some a \<and> type a = type pa \<and> h \<noteq> p}"
  let ?R = "rwkv_atomspace_pattern_match iter (Some s) p True m"
  have eq: "?R = take m ?F"
    using pa nz by (simp add: rwkv_atomspace_pattern_match_def pattern_match_loop_eq)
  note k = iteration_filter_keys[OF it, of "\<lambda>h a. type a = type pa \<and> h \<noteq> p"]
  have len: "length ?F = card ?S"
    using iteration_filter_length[OF it, of "\<lambda>h a. type a = type pa \<and> h \<noteq> p"] by simp
  show "?R = take m ?F" by (rule eq)
  show "distinct ?R" unfolding eq using k(2) by (rule distinct_take)
  show "set ?R \<subseteq> ?S" unfolding eq using set_take_subset[of m ?F] k(1) by simp
  show "length ?R = min m (card ?S)" unfolding eq using len by (simp add: min.commute)
  show "set ?R = ?S" if "card ?S \<le> m"
  proof -
    have "take m ?F = ?F" using that len by simp
    then show ?thesis unfolding eq using k(1) by simp
  qed
qed

text \<open>
  The theorem on the example store: the pattern A matches the Concept nodes C and B, not
  itself, not the Predicate node and not the links; no atom is stored at handle 9.
\<close>

theorem pattern_match_by_type_witness:
  "reachable demo_store \<and> iteration_of demo_store demo_iter \<and>
   atoms demo_store 1 = Some demo_A \<and>
   rwkv_atomspace_pattern_match demo_iter (Some demo_store) 1 True 2 = [3, 2] \<and>
   rwkv_atomspace_pattern_match demo_iter (Some demo_store) 1 True 1 = [3] \<and>
   atoms demo_store 9 = None \<and>
   rwkv_atomspace_pattern_match demo_iter (Some demo_store) 9 True 2 = []"
proof -
  have a: "atoms demo_store 1 = Some demo_A" and n: "atoms demo_store 9 = None"
    by (simp_all add: demo_store_def)
  have f: "map fst (filter (\<lambda>x. type (snd x) = type demo_A \<and> fst x \<noteq> 1) demo_iter) = [3, 2]"
    by (simp add: demo_iter_def demo_defs new_atom_def)
  note T = pattern_match_by_type[OF reachable_demo_store iteration_demo]
  from T[of 1 demo_A 2, THEN conjunct1, THEN mp, OF a, THEN conjunct1]
  have 1: "rwkv_atomspace_pattern_match demo_iter (Some demo_store) 1 True 2 = [3, 2]"
    unfolding f by simp
  from T[of 1 demo_A 1, THEN conjunct1, THEN mp, OF a, THEN conjunct1]
  have 2: "rwkv_atomspace_pattern_match demo_iter (Some demo_store) 1 True 1 = [3]"
    unfolding f by simp
  from T[of 9 demo_A 2, THEN conjunct2, THEN mp, OF n]
  have 3: "rwkv_atomspace_pattern_match demo_iter (Some demo_store) 9 True 2 = []" .
  show ?thesis
    by (intro conjI reachable_demo_store iteration_demo a n 1 2 3)
qed

subsection \<open>Forward inference\<close>

text \<open>
  Claim C4. For a premise handle that is not zero and output pointers that are not null,
  \<open>rwkv_atomspace_forward_inference\<close> returns true and writes the first
  \<open>max_conclusions\<close> second elements, in iteration order, of the stored Implication links
  that have exactly two outgoing handles, the first being the premise. All conclusions
  are such second elements, and every such element is a conclusion when
  \<open>max_conclusions\<close> is at least the number of these links. In a reachable store whose
  Implication links are Implication(A, B) and at most Implication(B, C), with A different
  from B, the conclusions of A are exactly [B]: the link from B is not followed.
\<close>

theorem forward_inference_one_hop:
  assumes p: "premise \<noteq> RWKV_INVALID_ATOM_HANDLE" and it: "iteration_of s iter"
  shows "rwkv_atomspace_forward_inference iter (Some s) premise True m True =
           (True, take m (map (\<lambda>x. outgoing (snd x) ! 1)
                (filter (\<lambda>x. type (snd x) = RWKV_ATOM_IMPLICATION_LINK \<and>
                              length (outgoing (snd x)) = 2 \<and> outgoing (snd x) ! 0 = premise) iter))) \<and>
         set (snd (rwkv_atomspace_forward_inference iter (Some s) premise True m True))
           \<subseteq> {b. \<exists>h a. atoms s h = Some a \<and> type a = RWKV_ATOM_IMPLICATION_LINK \<and>
                      outgoing a = [premise, b]} \<and>
         (card {h. \<exists>a. atoms s h = Some a \<and> type a = RWKV_ATOM_IMPLICATION_LINK \<and>
                     length (outgoing a) = 2 \<and> outgoing a ! 0 = premise} \<le> m \<longrightarrow>
          set (snd (rwkv_atomspace_forward_inference iter (Some s) premise True m True))
            = {b. \<exists>h a. atoms s h = Some a \<and> type a = RWKV_ATOM_IMPLICATION_LINK \<and>
                      outgoing a = [premise, b]}) \<and>
         (reachable s \<and> premise \<noteq> B \<and> 1 \<le> m \<and>
          (\<exists>h a. atoms s h = Some a \<and> type a = RWKV_ATOM_IMPLICATION_LINK \<and>
                 outgoing a = [premise, B]) \<and>
          (\<forall>h a. atoms s h = Some a \<and> type a = RWKV_ATOM_IMPLICATION_LINK \<longrightarrow>
                 outgoing a = [premise, B] \<or> outgoing a = [B, C]) \<longrightarrow>
          rwkv_atomspace_forward_inference iter (Some s) premise True m True = (True, [B]))"
proof -
  let ?P = "\<lambda>x :: rwkv_atom_handle_t \<times> rwkv_atom. type (snd x) = RWKV_ATOM_IMPLICATION_LINK \<and>
                length (outgoing (snd x)) = 2 \<and> outgoing (snd x) ! 0 = premise"
  let ?F = "filter ?P iter"
  let ?L = "map (\<lambda>x. outgoing (snd x) ! 1) ?F"
  let ?T = "{b. \<exists>h a. atoms s h = Some a \<and> type a = RWKV_ATOM_IMPLICATION_LINK \<and>
                      outgoing a = [premise, b]}"
  let ?K = "{h. \<exists>a. atoms s h = Some a \<and> type a = RWKV_ATOM_IMPLICATION_LINK \<and>
                     length (outgoing a) = 2 \<and> outgoing a ! 0 = premise}"
  let ?R = "rwkv_atomspace_forward_inference iter (Some s) premise True m True"
  have m: "(h, a) \<in> set iter \<longleftrightarrow> atoms s h = Some a" for h a
    by (rule iteration_of_mem[OF it])
  have two: "xs = [xs ! 0, xs ! 1]" if "length xs = 2" for xs :: "rwkv_atom_handle_t list"
  proof -
    from that obtain u v where "xs = [u, v]"
      by (cases xs; cases "tl xs"; cases "tl (tl xs)") auto
    then show ?thesis by simp
  qed
  have eq: "?R = (True, take m ?L)"
    using p by (simp add: rwkv_atomspace_forward_inference_def forward_inference_loop_eq)
  have setL: "set ?L = ?T"
  proof (intro set_eqI iffI)
    fix b assume "b \<in> set ?L"
    then obtain x where x: "x \<in> set iter" "?P x" "b = outgoing (snd x) ! 1" by auto
    have "atoms s (fst x) = Some (snd x)" using m[of "fst x" "snd x"] x(1) by simp
    moreover have "outgoing (snd x) = [premise, b]" using two[of "outgoing (snd x)"] x(2,3) by simp
    ultimately show "b \<in> ?T" using x(2) by blast
  next
    fix b assume "b \<in> ?T"
    then obtain h a where a: "atoms s h = Some a" "type a = RWKV_ATOM_IMPLICATION_LINK"
      "outgoing a = [premise, b]" by blast
    have "(h, a) \<in> set iter" using m a(1) by simp
    moreover have "?P (h, a)" using a(2,3) by simp
    ultimately have "(h, a) \<in> set ?F" by simp
    then have "(\<lambda>x. outgoing (snd x) ! 1) (h, a) \<in> (\<lambda>x. outgoing (snd x) ! 1) ` set ?F"
      by (rule imageI)
    then show "b \<in> set ?L" using a(3) by simp
  qed
  have lenF: "length ?F = card ?K"
    using iteration_filter_length[OF it, of "\<lambda>h a. type a = RWKV_ATOM_IMPLICATION_LINK \<and>
                     length (outgoing a) = 2 \<and> outgoing a ! 0 = premise"] by simp
  have 1: "set (snd ?R) \<subseteq> ?T" unfolding eq using set_take_subset[of m ?L] setL by simp
  have 2: "set (snd ?R) = ?T" if "card ?K \<le> m"
  proof -
    have "take m ?L = ?L" using that lenF by simp
    then show ?thesis unfolding eq using setL by simp
  qed
  have 3: "?R = (True, [B])"
    if h: "reachable s \<and> premise \<noteq> B \<and> 1 \<le> m \<and>
          (\<exists>h a. atoms s h = Some a \<and> type a = RWKV_ATOM_IMPLICATION_LINK \<and>
                 outgoing a = [premise, B]) \<and>
          (\<forall>h a. atoms s h = Some a \<and> type a = RWKV_ATOM_IMPLICATION_LINK \<longrightarrow>
                 outgoing a = [premise, B] \<or> outgoing a = [B, C])"
  proof -
    from h have r: "reachable s" and ne: "premise \<noteq> B" and m1: "1 \<le> m" by blast+
    from h obtain k l where l: "atoms s k = Some l" "type l = RWKV_ATOM_IMPLICATION_LINK"
      "outgoing l = [premise, B]" by blast
    from h have only: "\<And>h a. atoms s h = Some a \<Longrightarrow> type a = RWKV_ATOM_IMPLICATION_LINK \<Longrightarrow>
                 outgoing a = [premise, B] \<or> outgoing a = [B, C]" by blast
    from reachable_wf[OF r] have wl: "wf_links s" by simp
    have lt: "is_link_type (type l)" using l(2) by (simp add: is_link_type_def is_node_type_def)
    have dF: "distinct ?F" using it unfolding iteration_of_def
      by (simp add: distinct_map distinct_filter)
    have sF: "set ?F = {(k, l)}"
    proof (intro set_eqI iffI)
      fix x assume "x \<in> set ?F"
      then have x: "x \<in> set iter" "?P x" by auto
      have ax: "atoms s (fst x) = Some (snd x)" using m[of "fst x" "snd x"] x(1) by simp
      have "outgoing (snd x) = [premise, B] \<or> outgoing (snd x) = [B, C]"
        using only[OF ax] x(2) by blast
      then have o: "outgoing (snd x) = [premise, B]" using x(2) ne by auto
      have "fst x = k"
        using wf_links_uniqueD[OF wl l(1) ax lt] x(2) l(2,3) o by simp
      then have "snd x = l" using ax l(1) by simp
      then show "x \<in> {(k, l)}" using \<open>fst x = k\<close> by (cases x) simp
    next
      fix x assume "x \<in> {(k, l)}"
      then have "x = (k, l)" by simp
      moreover have "(k, l) \<in> set iter" using m l(1) by simp
      ultimately show "x \<in> set ?F" using l(2,3) by simp
    qed
    have "?F = [(k, l)]" by (rule singleton_list[OF dF sF])
    then have "?L = [B]" using l(3) by simp
    then show ?thesis unfolding eq using m1 by (simp add: take_Cons')
  qed
  show ?thesis using eq 1 2 3 by blast
qed

text \<open>
  The theorem on the example store, which holds Implication(A, B) and Implication(B, C):
  the conclusions of A are [B].
\<close>

theorem forward_inference_one_hop_witness:
  "(1 :: rwkv_atom_handle_t) \<noteq> RWKV_INVALID_ATOM_HANDLE \<and> iteration_of demo_store demo_iter \<and>
   reachable demo_store \<and> (1 :: rwkv_atom_handle_t) \<noteq> 2 \<and>
   atoms demo_store 5 = Some demo_AB \<and> atoms demo_store 6 = Some demo_BC \<and>
   outgoing demo_AB = [1, 2] \<and> outgoing demo_BC = [2, 3] \<and>
   rwkv_atomspace_forward_inference demo_iter (Some demo_store) 1 True 10 True = (True, [2])"
proof -
  have p: "(1 :: rwkv_atom_handle_t) \<noteq> RWKV_INVALID_ATOM_HANDLE"
    by (simp add: RWKV_INVALID_ATOM_HANDLE_def)
  have a: "atoms demo_store 5 = Some demo_AB" "atoms demo_store 6 = Some demo_BC"
    "outgoing demo_AB = [1, 2]" "outgoing demo_BC = [2, 3]"
    by (simp_all add: demo_store_def demo_defs new_atom_def)
  have ty: "type demo_AB = RWKV_ATOM_IMPLICATION_LINK"
    by (simp add: demo_defs new_atom_def)
  have ex: "\<exists>h a. atoms demo_store h = Some a \<and> type a = RWKV_ATOM_IMPLICATION_LINK \<and>
                 outgoing a = [1, 2]"
    using a(1,3) ty by blast
  have only: "\<forall>h a. atoms demo_store h = Some a \<and> type a = RWKV_ATOM_IMPLICATION_LINK \<longrightarrow>
                 outgoing a = [1, 2] \<or> outgoing a = [2, 3]"
    by (auto simp: demo_store_def demo_defs new_atom_def split: if_splits)
  have ne: "(1 :: rwkv_atom_handle_t) \<noteq> 2" "(1 :: nat) \<le> 10" by simp_all
  have prem: "reachable demo_store \<and> (1 :: rwkv_atom_handle_t) \<noteq> 2 \<and> (1 :: nat) \<le> 10 \<and>
          (\<exists>h a. atoms demo_store h = Some a \<and> type a = RWKV_ATOM_IMPLICATION_LINK \<and>
                 outgoing a = [1, 2]) \<and>
          (\<forall>h a. atoms demo_store h = Some a \<and> type a = RWKV_ATOM_IMPLICATION_LINK \<longrightarrow>
                 outgoing a = [1, 2] \<or> outgoing a = [2, 3])"
    by (intro conjI reachable_demo_store ne ex only)
  note T = forward_inference_one_hop[OF p iteration_demo, of 10 2 3]
  from T[THEN conjunct2, THEN conjunct2, THEN conjunct2, THEN mp, OF prem]
  have r: "rwkv_atomspace_forward_inference demo_iter (Some demo_store) 1 True 10 True
           = (True, [2])" .
  show ?thesis
    by (intro conjI p iteration_demo reachable_demo_store ne(1) a r)
qed

subsection \<open>The state bridge\<close>

text \<open>
  Claim C8. For a state of length at least 4 whose entry 3 is 0.5 and whose other
  entries are 0, \<open>rwkv_context_to_atoms\<close> on a fresh store succeeds and leaves the store
  with one atom: a Concept node named \<open>state_3\<close> with strength 0.5 and confidence
  \<open>0.8f\<close>; \<open>rwkv_atoms_to_context\<close> on that store, for a buffer of the same length,
  returns the state itself, so entry 3 is 0.5. For a state whose entries all have
  magnitude at most \<open>0.1f\<close>, which every float of magnitude at most one tenth has,
  \<open>rwkv_context_to_atoms\<close> succeeds and leaves any store unchanged; on a fresh store
  \<open>rwkv_atoms_to_context\<close> then returns zeros in the length of the state.
\<close>

theorem bridge_round_trip:
  "(4 \<le> N \<and> state = (replicate N (Fin 0))[3 := Fin (1 / 2)] \<longrightarrow>
      rwkv_context_to_atoms (rwkv_atomspace_create True) (Some state) = (True, Some demo_bridge) \<and>
      (\<exists>a. atoms demo_bridge 1 = Some a \<and> type a = RWKV_ATOM_CONCEPT_NODE \<and>
           name a = ''state_3'' \<and> strength (tv a) = Fin (1 / 2) \<and> confidence (tv a) = lit_0_8f) \<and>
      (\<forall>iter. iteration_of demo_bridge iter \<longrightarrow>
         (\<exists>out. rwkv_atoms_to_context iter (Some demo_bridge) True N = (True, Some out) \<and>
                length out = N \<and> out ! 3 = Fin (1 / 2) \<and> out = state))) \<and>
   ((\<forall>x\<in>set v. fle (fabs x) lit_0_1f) \<longrightarrow>
      rwkv_context_to_atoms (Some s) (Some v) = (True, Some s) \<and>
      rwkv_context_to_atoms (rwkv_atomspace_create True) (Some v) = (True, Some new_atomspace) \<and>
      (\<forall>iter. iteration_of new_atomspace iter \<longrightarrow>
         rwkv_atoms_to_context iter (Some new_atomspace) True (length v)
           = (True, Some (replicate (length v) (Fin 0)))))"
proof (intro conjI impI)
  assume h: "4 \<le> N \<and> state = (replicate N (Fin 0))[3 := Fin (1 / 2)]"
  then have N: "4 \<le> N" and st: "state = (replicate N (Fin 0))[3 := Fin (1 / 2)]" by blast+
  have len: "length state = N" unfolding st by simp
  have at3: "state ! 3 = Fin (1 / 2)" unfolding st using N by simp
  have other: "\<not> fless lit_0_1f (fabs (state ! i))" if "i < N" "i \<noteq> 3" for i
    unfolding st using that by (simp add: lit_0_1f_def)
  let ?m = "min N 100"
  have m4: "4 \<le> ?m" using N by simp
  have skip1: "\<forall>i\<in>set [0..<3]. \<not> fless lit_0_1f (fabs (state ! i))"
    using other N by auto
  have skip2: "\<forall>i\<in>set [4..<?m]. \<not> fless lit_0_1f (fabs (state ! i))"
    using other by auto
  have "fold (context_to_atoms_step state) [0..<?m] (Some new_atomspace) = Some demo_bridge"
    unfolding upt_split_3[OF m4] fold_append comp_apply fold_Cons
      context_to_atoms_skip[OF skip1] context_to_atoms_step_3[OF at3]
    by (rule context_to_atoms_skip[OF skip2])
  then show "rwkv_context_to_atoms (rwkv_atomspace_create True) (Some state) = (True, Some demo_bridge)"
    by (simp add: rwkv_context_to_atoms_def rwkv_atomspace_create_def len)
  show "\<exists>a. atoms demo_bridge 1 = Some a \<and> type a = RWKV_ATOM_CONCEPT_NODE \<and>
           name a = ''state_3'' \<and> strength (tv a) = Fin (1 / 2) \<and> confidence (tv a) = lit_0_8f"
    by (simp add: demo_bridge_def demo_state_node_def)
  show "\<forall>iter. iteration_of demo_bridge iter \<longrightarrow>
         (\<exists>out. rwkv_atoms_to_context iter (Some demo_bridge) True N = (True, Some out) \<and>
                length out = N \<and> out ! 3 = Fin (1 / 2) \<and> out = state)"
  proof (intro allI impI)
    fix iter assume "iteration_of demo_bridge iter"
    then have i: "iter = [(1, demo_state_node)]" by (rule iteration_demo_bridge)
    have "3 < N" using N by simp
    from decode_demo_bridge[OF this]
    have "rwkv_atoms_to_context iter (Some demo_bridge) True N = (True, Some state)"
      unfolding i st by (simp add: rwkv_atoms_to_context_def)
    then show "\<exists>out. rwkv_atoms_to_context iter (Some demo_bridge) True N = (True, Some out) \<and>
                length out = N \<and> out ! 3 = Fin (1 / 2) \<and> out = state"
      using len at3 by simp
  qed
next
  assume small: "\<forall>x\<in>set v. fle (fabs x) lit_0_1f"
  have ns: "\<not> fless lit_0_1f (fabs x)" if "x \<in> set v" for x
  proof -
    have "fle (fabs x) lit_0_1f" using small that by blast
    then show ?thesis by (cases x) (auto simp: lit_0_1f_def)
  qed
  have skip: "\<forall>i\<in>set [0..<min (length v) 100]. \<not> fless lit_0_1f (fabs (v ! i))"
    using ns by auto
  show "rwkv_context_to_atoms (Some s) (Some v) = (True, Some s)"
    by (simp add: rwkv_context_to_atoms_def context_to_atoms_skip[OF skip])
  show "rwkv_context_to_atoms (rwkv_atomspace_create True) (Some v) = (True, Some new_atomspace)"
    by (simp add: rwkv_context_to_atoms_def rwkv_atomspace_create_def context_to_atoms_skip[OF skip])
  show "\<forall>iter. iteration_of new_atomspace iter \<longrightarrow>
         rwkv_atoms_to_context iter (Some new_atomspace) True (length v)
           = (True, Some (replicate (length v) (Fin 0)))"
  proof (intro allI impI)
    fix iter assume "iteration_of new_atomspace iter"
    then have "iter = []" by (rule iteration_new_only)
    then show "rwkv_atoms_to_context iter (Some new_atomspace) True (length v)
           = (True, Some (replicate (length v) (Fin 0)))"
      by (simp add: rwkv_atoms_to_context_def)
  qed
qed

text \<open>
  The theorem on a state of length 5 and on a state of three small entries.
\<close>

theorem bridge_round_trip_witness:
  "(4 :: nat) \<le> 5 \<and>
   rwkv_context_to_atoms (rwkv_atomspace_create True)
     (Some [Fin 0, Fin 0, Fin 0, Fin (1 / 2), Fin 0]) = (True, Some demo_bridge) \<and>
   iteration_of demo_bridge [(1, demo_state_node)] \<and>
   rwkv_atoms_to_context [(1, demo_state_node)] (Some demo_bridge) True 5
     = (True, Some [Fin 0, Fin 0, Fin 0, Fin (1 / 2), Fin 0]) \<and>
   fle (fabs (Fin (1 / 20))) lit_0_1f \<and> fle (fabs (Fin (- (1 / 10)))) lit_0_1f \<and>
   fle (fabs (Fin 0)) lit_0_1f \<and>
   rwkv_context_to_atoms (Some demo_store) (Some [Fin (1 / 20), Fin (- (1 / 10)), Fin 0])
     = (True, Some demo_store) \<and>
   iteration_of new_atomspace [] \<and>
   rwkv_atoms_to_context [] (Some new_atomspace) True 3 = (True, Some [Fin 0, Fin 0, Fin 0])"
proof -
  let ?st = "[Fin 0, Fin 0, Fin 0, Fin (1 / 2), Fin 0]"
  let ?v = "[Fin (1 / 20), Fin (- (1 / 10)), Fin 0]"
  have st: "?st = (replicate 5 (Fin 0))[3 := Fin (1 / 2)]"
    by (simp add: numeral_eq_Suc)
  have ib: "iteration_of demo_bridge [(1, demo_state_node)]"
    by (simp add: iteration_of_def demo_bridge_def)
  have sm: "fle (fabs (Fin (1 / 20))) lit_0_1f" "fle (fabs (Fin (- (1 / 10)))) lit_0_1f"
    "fle (fabs (Fin 0)) lit_0_1f"
    by (simp_all add: lit_0_1f_def)
  have all: "\<forall>x\<in>set ?v. fle (fabs x) lit_0_1f"
    using sm by simp
  have p1: "(4 :: nat) \<le> 5 \<and> ?st = (replicate 5 (Fin 0))[3 := Fin (1 / 2)]"
    using st by simp
  note T = bridge_round_trip[of 5 ?st ?v demo_store]
  note A = T[THEN conjunct1, THEN mp, OF p1]
  note B = T[THEN conjunct2, THEN mp, OF all]
  from A have e: "rwkv_context_to_atoms (rwkv_atomspace_create True) (Some ?st)
                  = (True, Some demo_bridge)" by blast
  from A ib obtain out where "rwkv_atoms_to_context [(1, demo_state_node)] (Some demo_bridge) True 5
       = (True, Some out)" "out = ?st" by blast
  then have d: "rwkv_atoms_to_context [(1, demo_state_node)] (Some demo_bridge) True 5
       = (True, Some ?st)" by simp
  from B have u: "rwkv_context_to_atoms (Some demo_store) (Some ?v) = (True, Some demo_store)"
    by blast
  from B iteration_new have
    "rwkv_atoms_to_context [] (Some new_atomspace) True (length ?v)
       = (True, Some (replicate (length ?v) (Fin 0)))" by blast
  then have z: "rwkv_atoms_to_context [] (Some new_atomspace) True 3
       = (True, Some [Fin 0, Fin 0, Fin 0])" by (simp add: numeral_eq_Suc)
  have le: "(4 :: nat) \<le> 5" by simp
  show ?thesis
    by (intro conjI le e ib d sm u iteration_new z)
qed

end
